theory Spec2Isabelle
  imports Complex_Main "HOL-Library.Sublist" "HOL-Library.Multiset" "HOL-Library.AList"
begin

section \<open>Data model\<close>

text \<open>
  The comparator of \<^verbatim>\<open>src/comparator.py\<close> works on pandas data frames. A cell is a
  Python value as the comparator sees it: the null marker, a string, an exact integer
  or a boolean. A frame is its column labels and its rows; an input table carries the
  declared type of every column as well. Numeric cells are exact integers: the change
  of a column's storage type by the join is outside this model.
\<close>

datatype cell = NaN | S string | I int | B bool

datatype dtype = dt_int64 | dt_float64 | dt_object | dt_bool | dt_datetime64

record frame =
  columns :: "string list"
  rows :: "cell list list"

record table = frame +
  dtypes :: "dtype list"

datatype error =
    AssertionError string
  | InconsistentDataTypesError "(string \<times> (string \<times> dtype) list) list"
  | KeyError string
  | ValueError string
  | MergeError string
  | AttributeError string
  | ZeroDivisionError

text \<open>A well-formed table: distinct column labels, one declared type per column, one
  cell per column in every row.\<close>

definition wf_table :: "table \<Rightarrow> bool" where
  "wf_table t \<longleftrightarrow>
     distinct (columns t) \<and> length (dtypes t) = length (columns t) \<and>
     list_all (\<lambda>r. length r = length (columns t)) (rows t)"

section \<open>Values and labels\<close>

text \<open>Python's \<^verbatim>\<open>==\<close> on cells: the null marker equals nothing, not even itself;
  \<^verbatim>\<open>True == 1\<close> and \<^verbatim>\<open>False == 0\<close>.\<close>

fun py_eq :: "cell \<Rightarrow> cell \<Rightarrow> bool" where
  "py_eq (S a) (S b) = (a = b)"
| "py_eq (I a) (I b) = (a = b)"
| "py_eq (B a) (B b) = (a = b)"
| "py_eq (I a) (B b) = (a = (if b then 1 else 0))"
| "py_eq (B a) (I b) = ((if a then 1 else 0) = b)"
| "py_eq _ _ = False"

text \<open>Key matching of \<^verbatim>\<open>merge\<close> and \<^verbatim>\<open>duplicated\<close>: as \<^verbatim>\<open>==\<close>, except that two
  nulls match.\<close>

definition same_cell :: "cell \<Rightarrow> cell \<Rightarrow> bool" where
  "same_cell a b \<longleftrightarrow> (a = NaN \<and> b = NaN) \<or> py_eq a b"

definition same_key :: "cell list \<Rightarrow> cell list \<Rightarrow> bool" where
  "same_key ks ks' \<longleftrightarrow> list_all2 same_cell ks ks'"

text \<open>The positions of a label in a list of labels, and selection by a list of labels
  (\<^verbatim>\<open>df[names]\<close>, \<^verbatim>\<open>row[names]\<close>): every position of every requested label, in the
  order requested. A label that is absent raises \<^verbatim>\<open>KeyError\<close>.\<close>

definition positions :: "string \<Rightarrow> string list \<Rightarrow> nat list" where
  "positions n cols = [i \<leftarrow> [0..<length cols]. cols ! i = n]"

definition take_labels :: "string list \<Rightarrow> string list \<Rightarrow> 'a list \<Rightarrow> 'a list" where
  "take_labels cols names xs = concat (map (\<lambda>n. map (\<lambda>i. xs ! i) (positions n cols)) names)"

definition missing_labels :: "string list \<Rightarrow> string list \<Rightarrow> string list" where
  "missing_labels cols names = [n \<leftarrow> names. n \<notin> set cols]"

definition getitem_columns :: "string list \<Rightarrow> frame \<Rightarrow> error + frame" where
  "getitem_columns names f =
     (case missing_labels (columns f) names of
        n # _ \<Rightarrow> Inl (KeyError n)
      | [] \<Rightarrow> Inr \<lparr>columns = take_labels (columns f) names (columns f),
                  rows = map (take_labels (columns f) names) (rows f)\<rparr>)"

text \<open>\<^verbatim>\<open>df.columns = names\<close>: the labels are replaced; a wrong number of labels raises.\<close>

definition set_columns :: "string list \<Rightarrow> frame \<Rightarrow> error + frame" where
  "set_columns names f =
     (if length names = length (columns f) then Inr (f\<lparr>columns := names\<rparr>)
      else Inl (ValueError ''Length mismatch''))"

text \<open>Python's \<^verbatim>\<open>str.replace(old, new)\<close> for a non-empty \<^verbatim>\<open>old\<close>: occurrences are
  replaced from the left, without overlap. \<^verbatim>\<open>old in s\<close> is \<^const>\<open>sublist\<close>.\<close>

fun replace :: "string \<Rightarrow> string \<Rightarrow> string \<Rightarrow> string" where
  "replace old new [] = []"
| "replace old new (c # cs) =
     (if old \<noteq> [] \<and> prefix old (c # cs)
      then new @ replace old new (drop (length old) (c # cs))
      else c # replace old new cs)"

section \<open>The comparator object\<close>

text \<open>
  The frames the comparator derives live in a store and the object's attributes hold
  their addresses, so that an in-place update of one frame is visible through every
  reference to it and through no other. An attribute not yet assigned is \<open>None\<close>. The
  two input tables and the key are set once by the constructor and never written. Of
  the two figures the object keeps the data they are drawn from: labels and numbers.
\<close>

type_synonym addr = nat
type_synonym store = "frame list"

record comparator =
  left_table :: table
  right_table :: table
  primary_keys :: "string list"
  joined :: "addr option"
  left_only :: "addr option"
  right_only :: "addr option"
  both :: "addr option"
  comparison_df :: "addr option"
  record_availability :: "(string \<times> real option) list option"
  record_consistency :: "(string \<times> real) list option"

definition init :: "table \<Rightarrow> table \<Rightarrow> string list \<Rightarrow> comparator" where
  "init l r keys =
     \<lparr>left_table = l, right_table = r, primary_keys = keys, joined = None,
      left_only = None, right_only = None, both = None, comparison_df = None,
      record_availability = None, record_consistency = None\<rparr>"

definition alloc :: "store \<Rightarrow> frame \<Rightarrow> addr \<times> store" where
  "alloc s f = (length s, s @ [f])"

text \<open>The outcome of a method: it returns, or it raises. Either way the object and the
  store are left as the method made them up to that point.\<close>

datatype outcome = Returned | Raised error

section \<open>Validation\<close>

text \<open>\<^verbatim>\<open>df.duplicated(subset=keys)\<close>: a row is flagged when an earlier row has the same
  key tuple.\<close>

fun duplicated_from :: "cell list list \<Rightarrow> cell list list \<Rightarrow> bool list" where
  "duplicated_from seen [] = []"
| "duplicated_from seen (k # ks) = list_ex (same_key k) seen # duplicated_from (seen @ [k]) ks"

definition duplicated :: "string list \<Rightarrow> table \<Rightarrow> error + bool list" where
  "duplicated keys t =
     (case missing_labels (columns t) keys of
        n # _ \<Rightarrow> Inl (KeyError n)
      | [] \<Rightarrow> Inr (duplicated_from [] (map (take_labels (columns t) keys) (rows t))))"

text \<open>\<^verbatim>\<open>Series.to_dict()\<close>: a Python dictionary, in order of first insertion.\<close>

definition to_dict :: "(string \<times> 'v) list \<Rightarrow> (string \<times> 'v) list" where
  "to_dict kvs = foldl (\<lambda>d (k, v). AList.update k v d) [] kvs"

text \<open>The dictionary built by lines 56 to 62. \<open>left_inconsistent_dict\<close> is read from the
  right table's types and \<open>right_inconsistent_dict\<close> from the left table's, as the source
  has it.\<close>

definition inconsistent_dict :: "table \<Rightarrow> table \<Rightarrow> error + (string \<times> (string \<times> dtype) list) list" where
  "inconsistent_dict l r =
     (let mask = map (\<lambda>(a, b). (a = b) = False) (zip (dtypes l) (dtypes r));
          left_inconsistent_dict =
            to_dict (map snd (filter fst (zip mask (zip (columns r) (dtypes r)))));
          right_inconsistent_dict =
            to_dict (map snd (filter fst (zip mask (zip (columns l) (dtypes l)))))
      in foldl (\<lambda>acc (key, v).
                 case acc of
                   Inl e \<Rightarrow> Inl e
                 | Inr d \<Rightarrow>
                     (case (map_of left_inconsistent_dict key, map_of right_inconsistent_dict key) of
                        (Some lt, Some rt) \<Rightarrow>
                          Inr (AList.update key [(''left_table'', lt), (''right_table'', rt)] d)
                      | _ \<Rightarrow> Inl (KeyError key)))
           (Inr []) left_inconsistent_dict)"

definition validate_data_quality :: "comparator \<Rightarrow> outcome" where
  "validate_data_quality c =
     (let l = left_table c; r = right_table c in
      if length (columns l) \<noteq> length (columns r)
      then Raised (AssertionError ''The tables must have the same number of columns.'')
      else if \<not> list_all (\<lambda>(a, b). a = b) (zip (columns l) (columns r))
      then Raised (AssertionError ''Columns names are inconsistent.'')
      else if list_all (\<lambda>(a, b). a = b) (zip (dtypes l) (dtypes r)) = False
      then (case inconsistent_dict l r of
              Inl e \<Rightarrow> Raised e
            | Inr d \<Rightarrow> Raised (InconsistentDataTypesError d))
      else (case duplicated (primary_keys c) l of
              Inl e \<Rightarrow> Raised e
            | Inr dl \<Rightarrow>
                if \<not> list_all (\<lambda>d. d = False) dl
                then Raised (AssertionError ''The left table contains duplicates.'')
                else (case duplicated (primary_keys c) r of
                        Inl e \<Rightarrow> Raised e
                      | Inr dr \<Rightarrow>
                          if \<not> list_all (\<lambda>d. d = False) dr
                          then Raised (AssertionError ''The right table contains duplicates.'')
                          else Returned)))"

section \<open>The outer join\<close>

text \<open>
  \<^verbatim>\<open>left.merge(right, on=keys, indicator=True, suffixes=[...], how="outer")\<close>, from the
  pandas documentation. The result has the left table's columns in place, then the
  right table's columns other than the keys, then the indicator column \<^verbatim>\<open>_merge\<close>. A
  label other than a key that both tables have gets the side's suffix. Every left row
  is paired with each right row of the same key (tag \<^verbatim>\<open>both\<close>) or, when there is none,
  padded with nulls (tag \<^verbatim>\<open>left_only\<close>); every right row whose key no left row has
  follows with nulls on the left (tag \<^verbatim>\<open>right_only\<close>). pandas raises when a key is
  not a column, when \<^verbatim>\<open>_merge\<close> is already a column and when the suffixes make two
  labels of one side equal. The order in which pandas returns the rows depends on the
  key values and on the version; it is the parameter \<open>arrange\<close>.
\<close>

definition nonkey_cells :: "string list \<Rightarrow> string list \<Rightarrow> 'a list \<Rightarrow> 'a list" where
  "nonkey_cells cols keys xs = map snd (filter (\<lambda>(c, x). c \<notin> set keys) (zip cols xs))"

definition merge_labels :: "table \<Rightarrow> table \<Rightarrow> string list \<Rightarrow> string list \<times> string list" where
  "merge_labels l r keys =
     (map (\<lambda>c. if c \<notin> set keys \<and> c \<in> set (columns r) then c @ ''_left_table'' else c) (columns l),
      map (\<lambda>c. if c \<in> set (columns l) then c @ ''_right_table'' else c)
          (nonkey_cells (columns r) keys (columns r)))"

definition merge_rows :: "table \<Rightarrow> table \<Rightarrow> string list \<Rightarrow> cell list list" where
  "merge_rows l r keys =
     concat (map (\<lambda>lr.
         let ms = filter (\<lambda>rr. same_key (take_labels (columns l) keys lr)
                                         (take_labels (columns r) keys rr)) (rows r)
         in if ms = []
            then [lr @ replicate (length (nonkey_cells (columns r) keys (columns r))) NaN
                     @ [S ''left_only'']]
            else map (\<lambda>rr. lr @ nonkey_cells (columns r) keys rr @ [S ''both'']) ms)
       (rows l))
     @ map (\<lambda>rr.
         concat (map (\<lambda>c. if c \<in> set keys then take_labels (columns r) [c] rr else [NaN])
                     (columns l))
         @ nonkey_cells (columns r) keys rr @ [S ''right_only''])
       (filter (\<lambda>rr. \<not> list_ex (\<lambda>lr. same_key (take_labels (columns l) keys lr)
                                                (take_labels (columns r) keys rr)) (rows l))
               (rows r))"

definition merge_outer ::
  "(cell list list \<Rightarrow> cell list list) \<Rightarrow> table \<Rightarrow> table \<Rightarrow> string list \<Rightarrow> error + frame" where
  "merge_outer arrange l r keys =
     (case missing_labels (columns l) keys @ missing_labels (columns r) keys of
        n # _ \<Rightarrow> Inl (KeyError n)
      | [] \<Rightarrow>
          if ''_merge'' \<in> set (columns l) \<union> set (columns r)
          then Inl (ValueError ''Cannot use name of an existing column for indicator column'')
          else (case merge_labels l r keys of
                  (llabels, rlabels) \<Rightarrow>
                    if \<not> distinct llabels \<or> \<not> distinct rlabels
                    then Inl (MergeError ''Passing suffixes which cause duplicate columns is not allowed.'')
                    else Inr \<lparr>columns = llabels @ rlabels @ [''_merge''],
                              rows = arrange (merge_rows l r keys)\<rparr>))"

definition join_tables ::
  "(cell list list \<Rightarrow> cell list list) \<Rightarrow> comparator \<Rightarrow> store \<Rightarrow> outcome \<times> comparator \<times> store" where
  "join_tables arrange c s =
     (case merge_outer arrange (left_table c) (right_table c) (primary_keys c) of
        Inl e \<Rightarrow> (Raised e, c, s)
      | Inr f \<Rightarrow> (case alloc s f of (a, s') \<Rightarrow> (Returned, c\<lparr>joined := Some a\<rparr>, s')))"

section \<open>The partition\<close>

text \<open>\<^verbatim>\<open>df[df["_merge"] == tag].copy(deep=True)\<close>: a new frame with the rows of that tag.\<close>

definition rows_tagged :: "string \<Rightarrow> frame \<Rightarrow> error + frame" where
  "rows_tagged tag f =
     (if ''_merge'' \<notin> set (columns f) then Inl (KeyError ''_merge'')
      else Inr (f\<lparr>rows := filter (\<lambda>r. take_labels (columns f) [''_merge''] r = [S tag]) (rows f)\<rparr>))"

text \<open>Lines 78 to 82, and lines 85 to 89 with the other tag and suffix: the tagged rows
  are copied, the key columns and every column whose label contains the suffix are
  selected into a new frame, and that frame's labels are overwritten in place with the
  suffix replaced by the empty string wherever it occurs.\<close>

definition split_side ::
  "string \<Rightarrow> string \<Rightarrow> string list \<Rightarrow> addr \<Rightarrow> store \<Rightarrow> (error + addr) \<times> store" where
  "split_side tag sfx keys j s =
     (case rows_tagged tag (s ! j) of
        Inl e \<Rightarrow> (Inl e, s)
      | Inr f0 \<Rightarrow>
          (case alloc s f0 of
             (a0, s0) \<Rightarrow>
               (case getitem_columns (keys @ [n \<leftarrow> columns (s0 ! a0). sublist sfx n]) (s0 ! a0) of
                  Inl e \<Rightarrow> (Inl e, s0)
                | Inr f1 \<Rightarrow>
                    (case alloc s0 f1 of
                       (a1, s1) \<Rightarrow>
                         (case set_columns (map (replace sfx []) (columns (s1 ! a1))) (s1 ! a1) of
                            Inl e \<Rightarrow> (Inl e, s1)
                          | Inr f2 \<Rightarrow> (Inr a1, s1[a1 := f2]))))))"

definition split_joined_table :: "comparator \<Rightarrow> store \<Rightarrow> outcome \<times> comparator \<times> store" where
  "split_joined_table c s =
     (case joined c of
        None \<Rightarrow> (Raised (AttributeError ''joined''), c, s)
      | Some j \<Rightarrow>
          (case split_side ''left_only'' ''_left_table'' (primary_keys c) j s of
             (Inl e, s1) \<Rightarrow> (Raised e, c, s1)
           | (Inr lo, s1) \<Rightarrow>
               (case split_side ''right_only'' ''_right_table'' (primary_keys c) j s1 of
                  (Inl e, s2) \<Rightarrow> (Raised e, c\<lparr>left_only := Some lo\<rparr>, s2)
                | (Inr ro, s2) \<Rightarrow>
                    (case rows_tagged ''both'' (s2 ! j) of
                       Inl e \<Rightarrow> (Raised e, c\<lparr>left_only := Some lo, right_only := Some ro\<rparr>, s2)
                     | Inr fb \<Rightarrow>
                         (case alloc s2 fb of
                            (b, s3) \<Rightarrow>
                              (Returned,
                               c\<lparr>left_only := Some lo, right_only := Some ro, both := Some b\<rparr>,
                               s3))))))"

section \<open>The field comparison\<close>

definition fillna :: "frame \<Rightarrow> frame" where
  "fillna f = f\<lparr>rows := map (map (\<lambda>x. if x = NaN then S [] else x)) (rows f)\<rparr>"

text \<open>The integer labels \<^verbatim>\<open>0, 1, ...\<close> that pandas gives the columns of a frame built
  from rows, written in decimal.\<close>

fun decimal :: "nat \<Rightarrow> string" where
  "decimal n =
     (if n < 10 then [char_of (48 + n)] else decimal (n div 10) @ [char_of (48 + n mod 10)])"

declare decimal.simps [simp del]

text \<open>The body of the loop of lines 102 to 110, for one row of the null-filled copy.\<close>

definition comparison_rows ::
  "string list \<Rightarrow> string list \<Rightarrow> string list \<Rightarrow> cell list \<Rightarrow> error + frame" where
  "comparison_rows cols left_columns right_columns row =
     (case missing_labels cols left_columns of
        n # _ \<Rightarrow> Inl (KeyError n)
      | [] \<Rightarrow>
          (case missing_labels cols right_columns of
             n # _ \<Rightarrow> Inl (KeyError n)
           | [] \<Rightarrow>
               (let left_row = take_labels cols left_columns row;
                    right_row = take_labels cols right_columns row
                in if length left_row \<noteq> length right_row
                   then Inl (ValueError ''Can only compare identically-labeled Series objects'')
                   else Inr \<lparr>columns = map decimal [0..<length left_row] @ [''comparison''],
                             rows = [left_row @ [S ''left_table''],
                                     right_row @ [S ''right_table''],
                                     map (\<lambda>(a, b). B (py_eq a b)) (zip left_row right_row)
                                       @ [S ''comparison_result'']]\<rparr>)))"

fun comparison_loop ::
  "string list \<Rightarrow> string list \<Rightarrow> string list \<Rightarrow> cell list list \<Rightarrow> error + frame list" where
  "comparison_loop cols lc rc [] = Inr []"
| "comparison_loop cols lc rc (row # rest) =
     (case comparison_rows cols lc rc row of
        Inl e \<Rightarrow> Inl e
      | Inr blk \<Rightarrow>
          (case comparison_loop cols lc rc rest of
             Inl e \<Rightarrow> Inl e
           | Inr blks \<Rightarrow> Inr (blk # blks)))"

text \<open>\<^verbatim>\<open>pd.concat\<close> of frames that all have the same labels; it raises on the empty
  list.\<close>

definition concat_frames :: "frame list \<Rightarrow> error + frame" where
  "concat_frames blks =
     (case blks of
        [] \<Rightarrow> Inl (ValueError ''No objects to concatenate'')
      | b # _ \<Rightarrow> Inr \<lparr>columns = columns b, rows = concat (map rows blks)\<rparr>)"

definition compare_records_in_both :: "comparator \<Rightarrow> store \<Rightarrow> outcome \<times> comparator \<times> store" where
  "compare_records_in_both c s =
     (case both c of
        None \<Rightarrow> (Raised (AttributeError ''both''), c, s)
      | Some b \<Rightarrow>
          (let left_columns = primary_keys c @ [n \<leftarrow> columns (s ! b). sublist ''_left_table'' n];
               right_columns = primary_keys c @ [n \<leftarrow> columns (s ! b). sublist ''_right_table'' n]
           in case getitem_columns [n \<leftarrow> columns (s ! b). n \<noteq> ''_merge''] (s ! b) of
                Inl e \<Rightarrow> (Raised e, c, s)
              | Inr f0 \<Rightarrow>
                  (case alloc s f0 of
                     (a, s0) \<Rightarrow>
                       (let s1 = s0[a := fillna (s0 ! a)]
                        in case comparison_loop (columns (s1 ! a)) left_columns right_columns
                                  (rows (s1 ! a)) of
                             Inl e \<Rightarrow> (Raised e, c, s1)
                           | Inr comparison_df_list \<Rightarrow>
                               (case concat_frames comparison_df_list of
                                  Inl e \<Rightarrow> (Raised e, c, s1)
                                | Inr f1 \<Rightarrow>
                                    (case alloc s1 f1 of
                                       (d, s2) \<Rightarrow>
                                         (case set_columns (columns (left_table c) @ [''comparison''])
                                                 (s2 ! d) of
                                            Inl e \<Rightarrow> (Raised e, c, s2)
                                          | Inr f2 \<Rightarrow>
                                              (let s3 = s2[d := f2]
                                               in case getitem_columns
                                                         (''comparison'' # columns (left_table c))
                                                         (s3 ! d) of
                                                    Inl e \<Rightarrow> (Raised e, c, s3)
                                                  | Inr f3 \<Rightarrow>
                                                      (case alloc s3 f3 of
                                                         (d', s4) \<Rightarrow>
                                                           (Returned,
                                                            c\<lparr>comparison_df := Some d'\<rparr>,
                                                            s4))))))))))"

definition and_then ::
  "outcome \<times> comparator \<times> store \<Rightarrow> (comparator \<Rightarrow> store \<Rightarrow> outcome \<times> comparator \<times> store)
     \<Rightarrow> outcome \<times> comparator \<times> store" where
  "and_then r m = (case r of (Returned, c, s) \<Rightarrow> m c s | (Raised e, c, s) \<Rightarrow> (Raised e, c, s))"

definition prepare_results ::
  "(cell list list \<Rightarrow> cell list list) \<Rightarrow> comparator \<Rightarrow> store \<Rightarrow> outcome \<times> comparator \<times> store" where
  "prepare_results arrange c s =
     and_then (and_then (and_then (validate_data_quality c, c, s) (join_tables arrange))
                        split_joined_table)
              compare_records_in_both"

section \<open>The aggregates\<close>

text \<open>
  The percentages are binary floating-point numbers. Their rounding is the parameter
  \<open>rnd\<close>, applied to the exact result of every floating-point operation; the standard
  model of floating-point arithmetic bounds its relative error by the unit roundoff.
  A quotient of zero by zero is the floating-point null (\<open>None\<close>) in array arithmetic
  and raises \<^verbatim>\<open>ZeroDivisionError\<close> in plain Python arithmetic.
\<close>

definition rounds :: "real \<Rightarrow> (real \<Rightarrow> real) \<Rightarrow> bool" where
  "rounds u rnd \<longleftrightarrow> (\<forall>x. \<bar>rnd x - x\<bar> \<le> u * \<bar>x\<bar>)"

text \<open>\<^verbatim>\<open>value_counts()\<close> of the indicator column, which is categorical: one count for
  each of the three categories, also when it is zero, by decreasing count.\<close>

definition value_counts :: "cell list \<Rightarrow> (string \<times> nat) list" where
  "value_counts tags =
     sort_key (\<lambda>(t, n). - int n)
       (map (\<lambda>t. (t, length (filter (\<lambda>x. x = S t) tags)))
            [''left_only'', ''right_only'', ''both''])"

definition replace_label :: "string \<Rightarrow> string" where
  "replace_label t =
     (if t = ''left_only'' then ''Tylko w lewej''
      else if t = ''right_only'' then ''Tylko w prawej''
      else if t = ''both'' then ''W obu'' else t)"

definition visualize_record_availability ::
  "(real \<Rightarrow> real) \<Rightarrow> comparator \<Rightarrow> store \<Rightarrow> outcome \<times> comparator \<times> store" where
  "visualize_record_availability rnd c s =
     (case joined c of
        None \<Rightarrow> (Raised (AttributeError ''joined''), c, s)
      | Some j \<Rightarrow>
          if ''_merge'' \<notin> set (columns (s ! j)) then (Raised (KeyError ''_merge''), c, s)
          else
            (let merge_counts =
                   value_counts (concat (map (take_labels (columns (s ! j)) [''_merge''])
                                             (rows (s ! j))));
                 total = sum_list (map snd merge_counts);
                 percentage =
                   map (\<lambda>(t, n). if total = 0 then None
                                   else Some (rnd (rnd (real n / real total) * 100)))
                       merge_counts
             in (Returned,
                 c\<lparr>record_availability :=
                     Some (zip (map (replace_label \<circ> fst) merge_counts) percentage)\<rparr>,
                 s)))"

text \<open>Lines 143 to 152. The label \<^verbatim>\<open>comparison\<close> occurs once in the comparison frame
  unless an input column has that name.\<close>

definition column_consistency ::
  "(real \<Rightarrow> real) \<Rightarrow> frame \<Rightarrow> string \<Rightarrow> error + real" where
  "column_consistency rnd comparison_result column =
     (let n = length (rows comparison_result);
          k = (if length (positions column (columns comparison_result)) = 1
               then length (filter (\<lambda>r. take_labels (columns comparison_result) [column]
                                             (map (\<lambda>x. py_eq x (B True)) r) = [True])
                                   (rows comparison_result))
               else n)
      in if n = 0 then Inl ZeroDivisionError else Inr (rnd (real k / real n)))"

fun consistency_loop ::
  "(real \<Rightarrow> real) \<Rightarrow> frame \<Rightarrow> string list \<Rightarrow> (string \<times> real) list
     \<Rightarrow> error + (string \<times> real) list" where
  "consistency_loop rnd f [] d = Inr d"
| "consistency_loop rnd f (column # rest) d =
     (case column_consistency rnd f column of
        Inl e \<Rightarrow> Inl e
      | Inr v \<Rightarrow> consistency_loop rnd f rest (AList.update column v d))"

definition visualize_record_consistency ::
  "(real \<Rightarrow> real) \<Rightarrow> comparator \<Rightarrow> store \<Rightarrow> outcome \<times> comparator \<times> store" where
  "visualize_record_consistency rnd c s =
     (case comparison_df c of
        None \<Rightarrow> (Raised (AttributeError ''comparison_df''), c, s)
      | Some d \<Rightarrow>
          if ''comparison'' \<notin> set (columns (s ! d)) then (Raised (KeyError ''comparison''), c, s)
          else
            (let comparison_result =
                   (s ! d)\<lparr>rows := filter (\<lambda>r. take_labels (columns (s ! d)) [''comparison''] r
                                                 = [S ''comparison_result''])
                                          (rows (s ! d))\<rparr>;
                 cols = [column \<leftarrow> columns comparison_result.
                         column \<notin> set (''comparison'' # primary_keys c)]
             in case consistency_loop rnd comparison_result cols [] of
                  Inl e \<Rightarrow> (Raised e, c, s)
                | Inr records_consistency \<Rightarrow>
                    (Returned,
                     c\<lparr>record_consistency :=
                         Some (map (\<lambda>(column, v). (column, rnd (v * 100))) records_consistency)\<rparr>,
                     s)))"

definition visualize_results ::
  "(real \<Rightarrow> real) \<Rightarrow> comparator \<Rightarrow> store \<Rightarrow> outcome \<times> comparator \<times> store" where
  "visualize_results rnd c s =
     and_then (visualize_record_availability rnd c s) (visualize_record_consistency rnd)"

section \<open>Vocabulary of the proofs\<close>

text \<open>
  A plain label contains neither suffix of the join and is none of the labels that the
  join and the comparison add. \<open>bordered p q\<close> says that a proper non-empty end of \<open>p\<close>
  begins \<open>q\<close>. \<open>pick\<close> is the selection of one label. Under plain labels the joined
  frame has the labels \<open>side_labels\<close> followed by the indicator.
\<close>

definition plain_label :: "string \<Rightarrow> bool" where
  "plain_label n \<longleftrightarrow>
     \<not> sublist ''_left_table'' n \<and> \<not> sublist ''_right_table'' n
     \<and> n \<noteq> ''_merge'' \<and> n \<noteq> ''comparison''"

definition bordered :: "string \<Rightarrow> string \<Rightarrow> bool" where
  "bordered p q \<longleftrightarrow> (\<exists>us. us \<noteq> [] \<and> us \<noteq> p \<and> suffix us p \<and> prefix us q)"

definition pick :: "string list \<Rightarrow> string \<Rightarrow> 'a list \<Rightarrow> 'a list" where
  "pick cols n xs = map (\<lambda>i. xs ! i) (positions n cols)"

definition lab :: "string list \<Rightarrow> string \<Rightarrow> string" where
  "lab keys c = (if c \<in> set keys then c else c @ ''_left_table'')"

definition nonkeys :: "string list \<Rightarrow> string list \<Rightarrow> string list" where
  "nonkeys cl keys = filter (\<lambda>c. c \<notin> set keys) cl"

definition side_labels :: "string list \<Rightarrow> string list \<Rightarrow> string list" where
  "side_labels cl keys = map (lab keys) cl @ map (\<lambda>c. c @ ''_right_table'') (nonkeys cl keys)"

definition norm_cell :: "cell \<Rightarrow> cell" where
  "norm_cell x = (case x of B b \<Rightarrow> I (if b then 1 else 0) | _ \<Rightarrow> x)"

definition nkey :: "string list \<Rightarrow> string list \<Rightarrow> cell list \<Rightarrow> cell list" where
  "nkey cols keys row = map norm_cell (take_labels cols keys row)"

definition reorders :: "(cell list list \<Rightarrow> cell list list) \<Rightarrow> bool" where
  "reorders arrange \<longleftrightarrow> (\<forall>xs. mset (arrange xs) = mset xs)"

definition key_cells :: "string list \<Rightarrow> string list \<Rightarrow> cell list \<Rightarrow> cell list" where
  "key_cells cl keys rr =
     concat (map (\<lambda>c. if c \<in> set keys then take_labels cl [c] rr else [NaN]) cl)"

definition tidy :: "table \<Rightarrow> table \<Rightarrow> string list \<Rightarrow> bool" where
  "tidy l r keys \<longleftrightarrow>
     wf_table l \<and> wf_table r \<and> columns r = columns l \<and> set keys \<subseteq> set (columns l)
     \<and> distinct keys \<and> list_all plain_label (columns l)"

definition matches :: "string list \<Rightarrow> string list \<Rightarrow> cell list list \<Rightarrow> cell list \<Rightarrow> cell list list" where
  "matches cl keys rs lr = [rr \<leftarrow> rs. nkey cl keys rr = nkey cl keys lr]"

definition left_only_row :: "string list \<Rightarrow> string list \<Rightarrow> cell list \<Rightarrow> cell list" where
  "left_only_row cl keys lr = lr @ replicate (length (nonkeys cl keys)) NaN @ [S ''left_only'']"

definition both_row :: "string list \<Rightarrow> string list \<Rightarrow> cell list \<Rightarrow> cell list \<Rightarrow> cell list" where
  "both_row cl keys lr rr = lr @ nonkey_cells cl keys rr @ [S ''both'']"

definition right_only_row :: "string list \<Rightarrow> string list \<Rightarrow> cell list \<Rightarrow> cell list" where
  "right_only_row cl keys rr = key_cells cl keys rr @ nonkey_cells cl keys rr @ [S ''right_only'']"

definition key_first :: "string list \<Rightarrow> string list \<Rightarrow> cell list \<Rightarrow> cell list" where
  "key_first cl keys row = take_labels cl keys row @ nonkey_cells cl keys row"

definition joined_frame ::
  "(cell list list \<Rightarrow> cell list list) \<Rightarrow> table \<Rightarrow> table \<Rightarrow> string list \<Rightarrow> frame" where
  "joined_frame arrange l r keys =
     \<lparr>columns = side_labels (columns l) keys @ [''_merge''],
      rows = arrange (merge_rows l r keys)\<rparr>"

definition tagged :: "string \<Rightarrow> frame \<Rightarrow> frame" where
  "tagged tag f = f\<lparr>rows := filter (\<lambda>row. last row = S tag) (rows f)\<rparr>"

definition projected :: "string list \<Rightarrow> string list \<Rightarrow> string \<Rightarrow> frame \<Rightarrow> frame" where
  "projected cl keys sfx f =
     \<lparr>columns = keys @ nonkeys cl keys,
      rows = map (take_labels (columns f) (keys @ map (\<lambda>c. c @ sfx) (nonkeys cl keys))) (rows f)\<rparr>"

definition split_store ::
  "(cell list list \<Rightarrow> cell list list) \<Rightarrow> table \<Rightarrow> table \<Rightarrow> string list \<Rightarrow> store" where
  "split_store arrange l r keys =
     [joined_frame arrange l r keys,
      tagged ''left_only'' (joined_frame arrange l r keys),
      projected (columns l) keys ''_left_table'' (tagged ''left_only'' (joined_frame arrange l r keys)),
      tagged ''right_only'' (joined_frame arrange l r keys),
      projected (columns l) keys ''_right_table'' (tagged ''right_only'' (joined_frame arrange l r keys)),
      tagged ''both'' (joined_frame arrange l r keys)]"

definition fill_row :: "cell list \<Rightarrow> cell list" where
  "fill_row xs = map (\<lambda>x. if x = NaN then S [] else x) xs"

definition flags :: "cell list \<Rightarrow> cell list \<Rightarrow> cell list" where
  "flags ls rs = map (\<lambda>(a, b). B (py_eq a b)) (zip ls rs)"

definition block_rows :: "string list \<Rightarrow> string list \<Rightarrow> cell list \<Rightarrow> cell list list" where
  "block_rows cl keys x =
     [S ''left_table''
        # take_labels (side_labels cl keys) (keys @ map (\<lambda>c. c @ ''_left_table'') (nonkeys cl keys)) x,
      S ''right_table''
        # take_labels (side_labels cl keys) (keys @ map (\<lambda>c. c @ ''_right_table'') (nonkeys cl keys)) x,
      S ''comparison_result''
        # flags (take_labels (side_labels cl keys) (keys @ map (\<lambda>c. c @ ''_left_table'') (nonkeys cl keys)) x)
                (take_labels (side_labels cl keys) (keys @ map (\<lambda>c. c @ ''_right_table'') (nonkeys cl keys)) x)]"

definition filled_both ::
  "(cell list list \<Rightarrow> cell list list) \<Rightarrow> table \<Rightarrow> table \<Rightarrow> string list \<Rightarrow> frame" where
  "filled_both arrange l r keys =
     \<lparr>columns = side_labels (columns l) keys,
      rows = map (\<lambda>row. fill_row (butlast row))
                 (rows (tagged ''both'' (joined_frame arrange l r keys)))\<rparr>"

definition comparison_frame ::
  "(cell list list \<Rightarrow> cell list list) \<Rightarrow> table \<Rightarrow> table \<Rightarrow> string list \<Rightarrow> frame" where
  "comparison_frame arrange l r keys =
     \<lparr>columns = ''comparison'' # columns l,
      rows = concat (map (block_rows (columns l) keys) (rows (filled_both arrange l r keys)))\<rparr>"

section \<open>Example tables\<close>

text \<open>The tables of the specification's examples, and a few more, for the concrete
  runs below. \<open>in_order\<close> returns the joined rows as the join builds them.\<close>

definition in_order :: "cell list list \<Rightarrow> cell list list" where
  "in_order xs = xs"

definition people_left :: table where
  "people_left =
     \<lparr>columns = [''id'', ''name'', ''age''], rows = [[I 1, S ''ann'', I 30]],
      dtypes = [dt_int64, dt_object, dt_int64]\<rparr>"

definition people_right :: table where
  "people_right =
     \<lparr>columns = [''id'', ''name'', ''age''], rows = [[I 1, S ''ann'', S ''30'']],
      dtypes = [dt_int64, dt_object, dt_object]\<rparr>"

definition ab_table :: table where
  "ab_table = \<lparr>columns = [''a'', ''b''], rows = [], dtypes = [dt_int64, dt_object]\<rparr>"

definition ba_table :: table where
  "ba_table = \<lparr>columns = [''b'', ''a''], rows = [], dtypes = [dt_int64, dt_int64]\<rparr>"

definition letters_left :: table where
  "letters_left =
     \<lparr>columns = [''id'', ''v''], rows = [[I 1, S ''a''], [I 2, NaN]],
      dtypes = [dt_int64, dt_object]\<rparr>"

definition letters_right :: table where
  "letters_right =
     \<lparr>columns = [''id'', ''v''], rows = [[I 2, NaN], [I 3, S ''c'']],
      dtypes = [dt_int64, dt_object]\<rparr>"

(*EXAMPLES*)

section \<open>Validation: the claims\<close>

lemma zip_all_eq:
  "length xs = length ys \<Longrightarrow> list_all (\<lambda>(a, b). a = b) (zip xs ys) \<longleftrightarrow> xs = ys"
  by (induction xs ys rule: list_induct2) auto

text \<open>
  Claim C1. When only the declared types differ, validation raises the error of
  inconsistent types, and the error names every mismatching column once with the pair
  (left table's type, right table's type). The code does not do this: for the
  specification's own example, where only \<open>age\<close> differs and is an integer column on
  the left and a text column on the right, the entry of \<open>age\<close> gives the text type
  under \<open>left_table\<close> and the integer type under \<open>right_table\<close>. The two sides are
  interchanged, because line 56 fills \<open>left_inconsistent_dict\<close> from the right table
  and line 57 fills \<open>right_inconsistent_dict\<close> from the left table.
\<close>

theorem validate_reports_types_interchanged:
  "validate_data_quality (init people_left people_right [''id'']) =
     Raised (InconsistentDataTypesError
       [(''age'', [(''left_table'', dt_object), (''right_table'', dt_int64)])])"
  by (simp add: validate_data_quality_def init_def people_left_def people_right_def
      inconsistent_dict_def to_dict_def)

text \<open>
  Claim C9. Validation compares the column names position by position: two tables with
  the same set of column names in different orders fail with the assertion on column
  names (the specification's \<open>ColumnNameMismatch\<close>). The result does not depend on the
  declared types, the rows or the key: the name check comes before the type check.
\<close>

theorem validate_is_order_sensitive:
  assumes "distinct (columns (left_table c))" and "distinct (columns (right_table c))"
    and "set (columns (left_table c)) = set (columns (right_table c))"
    and "columns (left_table c) \<noteq> columns (right_table c)"
  shows "validate_data_quality c = Raised (AssertionError ''Columns names are inconsistent.'')"
proof -
  have "length (columns (left_table c)) = length (columns (right_table c))"
    using assms(1-3) by (metis distinct_card)
  then show ?thesis
    using assms(4) by (simp add: validate_data_quality_def Let_def zip_all_eq)
qed

theorem validate_is_order_sensitive_witness:
  "distinct (columns ab_table) \<and> distinct (columns ba_table)
   \<and> set (columns ab_table) = set (columns ba_table)
   \<and> columns ab_table \<noteq> columns ba_table
   \<and> dtypes ab_table \<noteq> dtypes ba_table
   \<and> validate_data_quality (init ab_table ba_table [''a''])
       = Raised (AssertionError ''Columns names are inconsistent.'')"
  using validate_is_order_sensitive [of "init ab_table ba_table [''a'']"]
  by (auto simp: init_def ab_table_def ba_table_def)

section \<open>The field comparison leaves the stored frames alone\<close>

text \<open>
  Claim C10. The field comparison does not modify its inputs. Whatever its outcome,
  every frame that was in the store before the call, the joined table and its matched
  subset among them, is the same frame afterwards, and the attributes that refer to
  them are unchanged: the replacement of nulls is applied in place to a frame that the
  call itself has allocated.
\<close>

theorem compare_preserves_stored_frames:
  assumes "compare_records_in_both c s = (out, c', s')"
  shows "take (length s) s' = s \<and> joined c' = joined c \<and> both c' = both c
         \<and> left_only c' = left_only c \<and> right_only c' = right_only c"
  using assms
  by (auto simp: compare_records_in_both_def alloc_def Let_def
      split: option.splits sum.splits prod.splits)

section \<open>Labels and selection\<close>

lemma not_bordered_ll: "\<not> bordered ''_left_table'' ''_left_table''"
  unfolding bordered_def by (auto simp: prefix_Cons suffix_Cons)

lemma not_bordered_rr: "\<not> bordered ''_right_table'' ''_right_table''"
  unfolding bordered_def by (auto simp: prefix_Cons suffix_Cons)

lemma not_bordered_lr: "\<not> bordered ''_left_table'' ''_right_table''"
  unfolding bordered_def by (auto simp: prefix_Cons suffix_Cons)

lemma not_bordered_rl: "\<not> bordered ''_right_table'' ''_left_table''"
  unfolding bordered_def by (auto simp: prefix_Cons suffix_Cons)

lemma sublist_append_unbordered:
  assumes "\<not> sublist p c" and "\<not> sublist p q" and "\<not> bordered p q"
  shows "\<not> sublist p (c @ q)"
proof
  assume "sublist p (c @ q)"
  then obtain xs1 xs2 where x: "p = xs1 @ xs2" "suffix xs1 c" "prefix xs2 q"
    using assms(1,2) by (auto simp: sublist_append)
  have "xs2 \<noteq> []" using x assms(1) by auto
  moreover have "xs2 \<noteq> p" using x assms(2) by auto
  moreover have "suffix xs2 p" using x(1) by (simp add: suffix_def)
  ultimately show False using assms(3) x(3) unfolding bordered_def by blast
qed

lemma replace_absent: "\<not> sublist p c \<Longrightarrow> replace p new c = c"
proof (induction c)
  case Nil then show ?case by simp
next
  case (Cons x c)
  then have "\<not> prefix p (x # c)" "\<not> sublist p c"
    by (auto simp: sublist_Cons_right)
  with Cons.IH show ?case by simp
qed

lemma replace_suffix:
  assumes "p \<noteq> []" and "\<not> bordered p p" and "\<not> sublist p c"
  shows "replace p [] (c @ p) = c"
  using assms(3)
proof (induction c)
  case Nil
  obtain y ys where p: "p = y # ys" using assms(1) by (cases p) auto
  show ?case by (simp add: p)
next
  case (Cons x c)
  then have np: "\<not> prefix p (x # c)" and ns: "\<not> sublist p c"
    by (auto simp: sublist_Cons_right)
  have "\<not> prefix p ((x # c) @ p)"
  proof
    assume "prefix p ((x # c) @ p)"
    then have "prefix p (x # c) \<or> (\<exists>us. p = (x # c) @ us \<and> prefix us p)"
      using prefix_append[of p "x # c" p] by blast
    then obtain us where us: "p = (x # c) @ us" "prefix us p"
      using np by blast
    have "us \<noteq> p" using us(1) by (metis append_self_conv2 list.distinct(1) same_append_eq append_assoc append_Nil)
    moreover have "us \<noteq> []" using us(1) np by auto
    moreover have "suffix us p" using us(1) by (metis suffixI)
    ultimately show False using assms(2) us(2) unfolding bordered_def by blast
  qed
  then show ?case using Cons.IH[OF ns] by simp
qed


lemma take_labels_pick: "take_labels cols names xs = concat (map (\<lambda>n. pick cols n xs) names)"
  by (simp add: take_labels_def pick_def)

lemma take_labels_Nil [simp]: "take_labels cols [] xs = []"
  by (simp add: take_labels_def)

lemma take_labels_Cons: "take_labels cols (n # ns) xs = pick cols n xs @ take_labels cols ns xs"
  by (simp add: take_labels_pick)

lemma take_labels_append: "take_labels cols (ns @ ms) xs = take_labels cols ns xs @ take_labels cols ms xs"
  by (simp add: take_labels_pick)

lemma positions_append:
  "positions n (cs @ ds) = positions n cs @ map (\<lambda>i. i + length cs) (positions n ds)"
proof -
  have "[0..<length cs + length ds] = [0..<length cs] @ map (\<lambda>i. i + length cs) [0..<length ds]"
    by (metis add.commute map_add_upt upt_add_eq_append zero_le)
  then show ?thesis
    by (auto simp: positions_def filter_map comp_def nth_append intro!: filter_cong)
qed

lemma positions_notin: "n \<notin> set cols \<Longrightarrow> positions n cols = []"
  by (auto simp: positions_def filter_empty_conv)

lemma positions_single: "positions n [m] = (if m = n then [0] else [])"
  by (simp add: positions_def)

lemma positions_less: "i \<in> set (positions n cols) \<Longrightarrow> i < length cols"
  by (simp add: positions_def)

lemma pick_append:
  assumes "length a = length cs"
  shows "pick (cs @ ds) n (a @ b) = pick cs n a @ pick ds n b"
proof -
  have "map (\<lambda>i. (a @ b) ! i) (positions n cs) = map (\<lambda>i. a ! i) (positions n cs)"
    using assms by (auto dest: positions_less simp: nth_append)
  moreover have "map (\<lambda>i. (a @ b) ! (i + length cs)) (positions n ds) = map (\<lambda>i. b ! i) (positions n ds)"
    using assms by (auto simp: nth_append)
  ultimately show ?thesis
    by (simp add: pick_def positions_append comp_def)
qed

lemma pick_notin: "n \<notin> set cols \<Longrightarrow> pick cols n xs = []"
  by (simp add: pick_def positions_notin)

lemma pick_single: "pick [m] n [t] = (if m = n then [t] else [])"
  by (simp add: pick_def positions_single)

lemma pick_Cons: "pick (m # cs) n (t # a) = (if m = n then [t] else []) @ pick cs n a"
  using pick_append[of "[t]" "[m]" cs n a] by (simp add: pick_single)

lemma pick_map_inj:
  "inj_on f (insert c (set cs)) \<Longrightarrow> pick (map f cs) (f c) a = pick cs c a"
  unfolding pick_def positions_def
  by (auto intro!: arg_cong[where f="map _"] filter_cong simp: inj_on_def)

lemma take_labels_notin:
  "set names \<inter> set ds = {} \<Longrightarrow> length a = length cs \<Longrightarrow>
   take_labels (cs @ ds) names (a @ b) = take_labels cs names a"
  by (induction names) (auto simp: take_labels_Cons pick_append pick_notin)

lemma take_labels_notin_left:
  "set names \<inter> set cs = {} \<Longrightarrow> length a = length cs \<Longrightarrow>
   take_labels (cs @ ds) names (a @ b) = take_labels ds names b"
  by (induction names) (auto simp: take_labels_Cons pick_append pick_notin)

lemma take_labels_Cons_notin:
  "m \<notin> set names \<Longrightarrow> take_labels (m # cs) names (t # a) = take_labels cs names a"
  using take_labels_notin_left[of names "[m]" "[t]" cs a] by simp

lemma take_labels_filter:
  "distinct cs \<Longrightarrow> length a = length cs \<Longrightarrow>
   take_labels cs (filter P cs) a = map snd (filter (\<lambda>(c, x). P c) (zip cs a))"
proof (induction cs arbitrary: a)
  case Nil then show ?case by simp
next
  case (Cons m cs)
  then obtain t a' where a: "a = t # a'" by (cases a) auto
  have "m \<notin> set (filter P cs)" using Cons.prems by auto
  then have "take_labels (m # cs) (filter P cs) (t # a') = take_labels cs (filter P cs) a'"
    by (rule take_labels_Cons_notin)
  moreover have "pick cs m a' = []" using Cons.prems by (auto intro: pick_notin)
  ultimately show ?case using Cons a
    by (auto simp: take_labels_Cons pick_Cons)
qed

lemma take_labels_self: "distinct cs \<Longrightarrow> length a = length cs \<Longrightarrow> take_labels cs cs a = a"
  using take_labels_filter[of cs a "\<lambda>_. True"] by simp

lemma take_labels_map_inj:
  "inj_on f (set names \<union> set cs) \<Longrightarrow> take_labels (map f cs) (map f names) a = take_labels cs names a"
proof (induction names)
  case Nil then show ?case by simp
next
  case (Cons n names)
  have "inj_on f (insert n (set cs))" using Cons.prems by (auto simp: inj_on_def)
  moreover have "inj_on f (set names \<union> set cs)" using Cons.prems by (auto simp: inj_on_def)
  ultimately show ?case using Cons.IH by (simp add: take_labels_Cons pick_map_inj)
qed

lemma filter_eq_upt: "i < n \<Longrightarrow> filter (\<lambda>j. j = i) [0..<n] = [i]"
  by (induction n) (auto simp: less_Suc_eq filter_empty_conv)

lemma positions_nth: "distinct cols \<Longrightarrow> i < length cols \<Longrightarrow> positions (cols ! i) cols = [i]"
proof -
  assume d: "distinct cols" and i: "i < length cols"
  have "filter (\<lambda>j. cols ! j = cols ! i) [0..<length cols] = filter (\<lambda>j. j = i) [0..<length cols]"
    using d i by (auto intro!: filter_cong simp: nth_eq_iff_index_eq)
  then show ?thesis using i by (simp add: positions_def filter_eq_upt)
qed

lemma length_pick: "distinct cols \<Longrightarrow> n \<in> set cols \<Longrightarrow> length (pick cols n xs) = 1"
  by (auto simp: in_set_conv_nth pick_def positions_nth)

lemma length_take_labels:
  "distinct cols \<Longrightarrow> set names \<subseteq> set cols \<Longrightarrow> length (take_labels cols names xs) = length names"
  by (induction names) (auto simp: take_labels_Cons length_pick)


lemma plain_left: "plain_label c \<Longrightarrow> \<not> sublist ''_right_table'' (c @ ''_left_table'')"
  by (rule sublist_append_unbordered) (auto simp: plain_label_def not_bordered_rl sublist_code)

lemma plain_right: "plain_label c \<Longrightarrow> \<not> sublist ''_left_table'' (c @ ''_right_table'')"
  by (rule sublist_append_unbordered) (auto simp: plain_label_def not_bordered_lr sublist_code)

lemma replace_left: "plain_label c \<Longrightarrow> replace ''_left_table'' [] (c @ ''_left_table'') = c"
  by (rule replace_suffix) (auto simp: plain_label_def not_bordered_ll)

lemma replace_right: "plain_label c \<Longrightarrow> replace ''_right_table'' [] (c @ ''_right_table'') = c"
  by (rule replace_suffix) (auto simp: plain_label_def not_bordered_rr)

lemma replace_plain:
  "plain_label c \<Longrightarrow> replace ''_left_table'' [] c = c \<and> replace ''_right_table'' [] c = c"
  by (simp add: plain_label_def replace_absent)

lemma merge_not_suffixed:
  "\<not> sublist ''_left_table'' ''_merge''" "\<not> sublist ''_right_table'' ''_merge''"
  by (simp_all add: sublist_code)

lemma lab_left: "plain_label c \<Longrightarrow> sublist ''_left_table'' (lab keys c) \<longleftrightarrow> c \<notin> set keys"
  by (auto simp: lab_def plain_label_def)

lemma lab_right: "plain_label c \<Longrightarrow> \<not> sublist ''_right_table'' (lab keys c)"
  by (auto simp: lab_def plain_left) (simp add: plain_label_def)

lemma lab_inj: "list_all plain_label cl \<Longrightarrow> inj_on (lab keys) (set cl)"
proof (rule inj_onI)
  fix x y assume p: "list_all plain_label cl" and x: "x \<in> set cl" and y: "y \<in> set cl"
    and e: "lab keys x = lab keys y"
  have px: "plain_label x" and py: "plain_label y" using p x y by (auto simp: list_all_iff)
  have "x \<in> set keys \<longleftrightarrow> y \<in> set keys"
    using lab_left[OF px, of keys] lab_left[OF py, of keys] e by simp
  then show "x = y" using e by (auto simp: lab_def)
qed

lemma nonkey_cells_self: "nonkey_cells cl keys cl = nonkeys cl keys"
  unfolding nonkey_cells_def nonkeys_def by (induction cl) auto

lemma length_nonkey_cells:
  "length xs = length cl \<Longrightarrow> length (nonkey_cells cl keys xs) = length (nonkeys cl keys)"
  unfolding nonkey_cells_def nonkeys_def
  by (induction xs cl rule: list_induct2) auto

lemma nonkey_cells_take:
  "distinct cl \<Longrightarrow> length xs = length cl \<Longrightarrow> nonkey_cells cl keys xs = take_labels cl (nonkeys cl keys) xs"
  unfolding nonkey_cells_def nonkeys_def by (simp add: take_labels_filter)

lemma distinct_side_labels:
  assumes "distinct cl" and "list_all plain_label cl"
  shows "distinct (side_labels cl keys)" and "''_merge'' \<notin> set (side_labels cl keys)"
proof -
  have p: "\<And>c. c \<in> set cl \<Longrightarrow> plain_label c" using assms(2) by (auto simp: list_all_iff)
  have 1: "distinct (map (lab keys) cl)"
    using assms lab_inj by (simp add: distinct_map)
  have 2: "distinct (map (\<lambda>c. c @ ''_right_table'') (nonkeys cl keys))"
    using assms(1) by (auto simp: distinct_map nonkeys_def inj_on_def)
  have 3: "lab keys c \<noteq> c' @ ''_right_table''" if "c \<in> set cl" for c c'
    using lab_right[OF p[OF that], of keys] by (metis sublist_append_leftI)
  show "distinct (side_labels cl keys)"
    using 1 2 3 by (auto simp: side_labels_def nonkeys_def)
  have m: "lab keys c \<noteq> ''_merge''" if "c \<in> set cl" for c
  proof (cases "c \<in> set keys")
    case True
    then show ?thesis using p[OF that] by (simp add: lab_def plain_label_def)
  next
    case False
    then have "sublist ''_left_table'' (lab keys c)" by (simp add: lab_def)
    then show ?thesis using merge_not_suffixed(1) by auto
  qed
  show "''_merge'' \<notin> set (side_labels cl keys)"
    using m by (fastforce simp: side_labels_def)
qed

lemma filter_left_labels:
  assumes "list_all plain_label cl"
  shows "filter (sublist ''_left_table'') (side_labels cl keys @ [''_merge''])
         = map (\<lambda>c. c @ ''_left_table'') (nonkeys cl keys)"
proof -
  have p: "\<And>c. c \<in> set cl \<Longrightarrow> plain_label c" using assms by (auto simp: list_all_iff)
  have "filter (sublist ''_left_table'') (map (lab keys) cl) = map (\<lambda>c. c @ ''_left_table'') (nonkeys cl keys)"
    using p by (induction cl) (auto simp: nonkeys_def lab_left, auto simp: lab_def)
  moreover have "filter (sublist ''_left_table'') (map (\<lambda>c. c @ ''_right_table'') (nonkeys cl keys)) = []"
    using p by (auto simp: filter_empty_conv nonkeys_def plain_right)
  ultimately show ?thesis by (simp add: side_labels_def sublist_code)
qed

lemma filter_right_labels:
  assumes "list_all plain_label cl"
  shows "filter (sublist ''_right_table'') (side_labels cl keys @ [''_merge''])
         = map (\<lambda>c. c @ ''_right_table'') (nonkeys cl keys)"
proof -
  have p: "\<And>c. c \<in> set cl \<Longrightarrow> plain_label c" using assms by (auto simp: list_all_iff)
  have "filter (sublist ''_right_table'') (map (lab keys) cl) = []"
    using p by (auto simp: filter_empty_conv lab_right)
  then show ?thesis by (simp add: side_labels_def sublist_code)
qed

lemma filter_left_labels': "list_all plain_label cl \<Longrightarrow>
  filter (sublist ''_left_table'') (side_labels cl keys) = map (\<lambda>c. c @ ''_left_table'') (nonkeys cl keys)"
  using filter_left_labels[of cl keys] by (simp add: sublist_code)

lemma filter_right_labels': "list_all plain_label cl \<Longrightarrow>
  filter (sublist ''_right_table'') (side_labels cl keys) = map (\<lambda>c. c @ ''_right_table'') (nonkeys cl keys)"
  using filter_right_labels[of cl keys] by (simp add: sublist_code)

lemma filter_not_merge:
  "''_merge'' \<notin> set xs \<Longrightarrow> filter (\<lambda>n. n \<noteq> ''_merge'') (xs @ [''_merge'']) = xs"
  by (induction xs) auto

lemma rename_left:
  "list_all plain_label cl \<Longrightarrow> set keys \<subseteq> set cl \<Longrightarrow>
   map (replace ''_left_table'' []) (keys @ map (\<lambda>c. c @ ''_left_table'') (nonkeys cl keys))
     = keys @ nonkeys cl keys"
  by (auto simp: list_all_iff nonkeys_def replace_left replace_plain subset_iff intro!: map_idI)

lemma rename_right:
  "list_all plain_label cl \<Longrightarrow> set keys \<subseteq> set cl \<Longrightarrow>
   map (replace ''_right_table'' []) (keys @ map (\<lambda>c. c @ ''_right_table'') (nonkeys cl keys))
     = keys @ nonkeys cl keys"
  by (auto simp: list_all_iff nonkeys_def replace_right replace_plain subset_iff intro!: map_idI)

lemma select_keys:
  assumes "distinct cl" "list_all plain_label cl" "set keys \<subseteq> set cl" "length a = length cl"
  shows "take_labels (side_labels cl keys) keys (a @ b) = take_labels cl keys a"
proof -
  have p: "\<And>c. c \<in> set cl \<Longrightarrow> plain_label c" using assms(2) by (auto simp: list_all_iff)
  have "set keys \<inter> set (map (\<lambda>c. c @ ''_right_table'') (nonkeys cl keys)) = {}"
    using p assms(3) by (auto simp: plain_label_def)
  then have 1: "take_labels (side_labels cl keys) keys (a @ b) = take_labels (map (lab keys) cl) keys a"
    unfolding side_labels_def using assms(4) by (intro take_labels_notin) auto
  have k: "map (lab keys) keys = keys" by (simp add: lab_def map_idI)
  have "take_labels (map (lab keys) cl) (map (lab keys) keys) a = take_labels cl keys a"
    using lab_inj[OF assms(2), of keys] assms(3)
    by (intro take_labels_map_inj) (simp add: Un_absorb1)
  then show ?thesis using 1 by (simp add: k)
qed

lemma select_left:
  assumes "distinct cl" "list_all plain_label cl" "length a = length cl"
  shows "take_labels (side_labels cl keys) (map (\<lambda>c. c @ ''_left_table'') (nonkeys cl keys)) (a @ b)
         = nonkey_cells cl keys a"
proof -
  have p: "\<And>c. c \<in> set cl \<Longrightarrow> plain_label c" using assms(2) by (auto simp: list_all_iff)
  have "set (map (\<lambda>c. c @ ''_left_table'') (nonkeys cl keys))
          \<inter> set (map (\<lambda>c. c @ ''_right_table'') (nonkeys cl keys)) = {}"
    using p plain_right by (auto simp: nonkeys_def)
  then have 1: "take_labels (side_labels cl keys) (map (\<lambda>c. c @ ''_left_table'') (nonkeys cl keys)) (a @ b)
      = take_labels (map (lab keys) cl) (map (\<lambda>c. c @ ''_left_table'') (nonkeys cl keys)) a"
    unfolding side_labels_def using assms(3) by (intro take_labels_notin) auto
  have e: "map (\<lambda>c. c @ ''_left_table'') (nonkeys cl keys) = map (lab keys) (nonkeys cl keys)"
    by (auto simp: nonkeys_def lab_def)
  have "set (nonkeys cl keys) \<union> set cl = set cl" by (auto simp: nonkeys_def)
  then have "take_labels (map (lab keys) cl) (map (lab keys) (nonkeys cl keys)) a
      = take_labels cl (nonkeys cl keys) a"
    using lab_inj[OF assms(2), of keys]
    by (intro take_labels_map_inj) simp
  then show ?thesis using 1 assms unfolding e by (simp add: nonkey_cells_take)
qed

lemma select_right:
  assumes "distinct cl" "list_all plain_label cl" "length a = length cl"
    and "length b = length (nonkeys cl keys)"
  shows "take_labels (side_labels cl keys) (map (\<lambda>c. c @ ''_right_table'') (nonkeys cl keys)) (a @ b) = b"
proof -
  have p: "\<And>c. c \<in> set cl \<Longrightarrow> plain_label c" using assms(2) by (auto simp: list_all_iff)
  have "set (map (\<lambda>c. c @ ''_right_table'') (nonkeys cl keys)) \<inter> set (map (lab keys) cl) = {}"
    using p lab_right by auto (metis sublist_append_leftI)
  then have "take_labels (side_labels cl keys) (map (\<lambda>c. c @ ''_right_table'') (nonkeys cl keys)) (a @ b)
      = take_labels (map (\<lambda>c. c @ ''_right_table'') (nonkeys cl keys))
          (map (\<lambda>c. c @ ''_right_table'') (nonkeys cl keys)) b"
    unfolding side_labels_def using assms(3) by (intro take_labels_notin_left) auto
  also have "\<dots> = b"
    using assms(1,4) by (intro take_labels_self) (auto simp: distinct_map nonkeys_def inj_on_def)
  finally show ?thesis .
qed


section \<open>Keys, the joined rows and the partition\<close>

lemma same_cell_norm: "same_cell a b \<longleftrightarrow> norm_cell a = norm_cell b"
  by (cases a; cases b) (auto simp: same_cell_def norm_cell_def)

lemma same_key_norm: "same_key ks ks' \<longleftrightarrow> map norm_cell ks = map norm_cell ks'"
  unfolding same_key_def
proof (induction ks arbitrary: ks')
  case Nil then show ?case by auto
next
  case (Cons k ks) then show ?case by (cases ks') (auto simp: same_cell_norm)
qed

lemma duplicated_from_distinct:
  "list_all (\<lambda>d. d = False) (duplicated_from seen ks) \<longleftrightarrow>
     distinct (map (map norm_cell) ks)
     \<and> set (map (map norm_cell) ks) \<inter> set (map (map norm_cell) seen) = {}"
proof (induction ks arbitrary: seen)
  case Nil then show ?case by simp
next
  case (Cons k ks)
  have "list_ex (same_key k) seen \<longleftrightarrow> map norm_cell k \<in> set (map (map norm_cell) seen)"
    by (auto simp: list_ex_iff same_key_norm)
  then show ?case using Cons.IH[of "seen @ [k]"] by auto
qed

lemma missing_labels_Nil: "missing_labels cols names = [] \<longleftrightarrow> set names \<subseteq> set cols"
  by (auto simp: missing_labels_def filter_empty_conv)

lemma duplicated_Inr:
  "duplicated keys t = Inr ds \<longleftrightarrow>
     set keys \<subseteq> set (columns t)
     \<and> ds = duplicated_from [] (map (take_labels (columns t) keys) (rows t))"
  by (auto simp: duplicated_def missing_labels_Nil[symmetric] split: list.splits)

lemma nkey_fun: "nkey cols keys = (\<lambda>row. map norm_cell (take_labels cols keys row))"
  by (rule ext) (simp add: nkey_def)

lemma validate_ReturnedD:
  assumes "validate_data_quality c = Returned"
  shows "columns (right_table c) = columns (left_table c)"
    and "dtypes (right_table c) = dtypes (left_table c) \<or> length (dtypes (left_table c)) \<noteq> length (dtypes (right_table c))"
    and "set (primary_keys c) \<subseteq> set (columns (left_table c))"
    and "distinct (map (nkey (columns (left_table c)) (primary_keys c)) (rows (left_table c)))"
    and "distinct (map (nkey (columns (left_table c)) (primary_keys c)) (rows (right_table c)))"
proof -
  have len: "length (columns (left_table c)) = length (columns (right_table c))"
    using assms by (auto simp: validate_data_quality_def Let_def split: if_splits)
  have cols: "list_all (\<lambda>(a, b). a = b) (zip (columns (left_table c)) (columns (right_table c)))"
    using assms by (auto simp: validate_data_quality_def Let_def split: if_splits)
  then show eq: "columns (right_table c) = columns (left_table c)"
    using len by (simp add: zip_all_eq)
  have ty: "list_all (\<lambda>(a, b). a = b) (zip (dtypes (left_table c)) (dtypes (right_table c)))"
    using assms len cols by (auto simp: validate_data_quality_def Let_def split: if_splits sum.splits)
  then show "dtypes (right_table c) = dtypes (left_table c) \<or> length (dtypes (left_table c)) \<noteq> length (dtypes (right_table c))"
    using zip_all_eq[of "dtypes (left_table c)" "dtypes (right_table c)"] by auto
  obtain dl dr where dl: "duplicated (primary_keys c) (left_table c) = Inr dl" "list_all (\<lambda>d. d = False) dl"
    and dr: "duplicated (primary_keys c) (right_table c) = Inr dr" "list_all (\<lambda>d. d = False) dr"
    using assms len cols ty
    by (auto simp: validate_data_quality_def Let_def split: if_splits sum.splits)
  show "set (primary_keys c) \<subseteq> set (columns (left_table c))"
    using dl(1) by (simp add: duplicated_Inr)
  show "distinct (map (nkey (columns (left_table c)) (primary_keys c)) (rows (left_table c)))"
    using dl duplicated_from_distinct[of "[]"]
    by (auto simp: duplicated_Inr nkey_fun comp_def)
  show "distinct (map (nkey (columns (left_table c)) (primary_keys c)) (rows (right_table c)))"
    using dr duplicated_from_distinct[of "[]"] eq
    by (auto simp: duplicated_Inr nkey_fun comp_def)
qed

lemma take_labels_last:
  assumes "m \<notin> set cs" "length row = Suc (length cs)"
  shows "take_labels (cs @ [m]) [m] row = [last row]"
proof -
  obtain x t where r: "row = x @ [t]" "length x = length cs"
    using assms(2) by (metis append_butlast_last_id length_0_conv length_butlast diff_Suc_1 nat.distinct(1))
  show ?thesis using assms(1) r
    by (simp add: take_labels_Cons pick_append pick_notin pick_single)
qed

lemma take_labels_butlast:
  assumes "m \<notin> set names" "length row = Suc (length cs)"
  shows "take_labels (cs @ [m]) names row = take_labels cs names (butlast row)"
proof -
  obtain x t where r: "row = x @ [t]" "length x = length cs"
    using assms(2) by (metis append_butlast_last_id length_0_conv length_butlast diff_Suc_1 nat.distinct(1))
  show ?thesis using assms(1) r by (simp add: take_labels_notin)
qed

lemma key_cells_nth:
  assumes "distinct cl"
  shows "key_cells cl keys rr = map (\<lambda>i. if cl ! i \<in> set keys then rr ! i else NaN) [0..<length cl]"
proof -
  let ?f = "\<lambda>c. if c \<in> set keys then take_labels cl [c] rr else [NaN]"
  have "map ?f cl = map ?f (map (\<lambda>i. cl ! i) [0..<length cl])"
    by (simp only: map_nth)
  also have "\<dots> = map (\<lambda>i. [if cl ! i \<in> set keys then rr ! i else NaN]) [0..<length cl]"
    unfolding map_map comp_def
    by (rule map_cong) (simp_all add: take_labels_Cons pick_def positions_nth[OF assms])
  finally show ?thesis by (simp add: key_cells_def concat_map_singleton comp_def)
qed

lemma length_key_cells: "distinct cl \<Longrightarrow> length (key_cells cl keys rr) = length cl"
  by (simp add: key_cells_nth)

lemma take_labels_key_cells:
  assumes "distinct cl" "set keys \<subseteq> set cl"
  shows "take_labels cl keys (key_cells cl keys rr) = take_labels cl keys rr"
proof -
  have "pick cl k (key_cells cl keys rr) = pick cl k rr" if k: "k \<in> set keys" for k
  proof -
    have "k \<in> set cl" using k assms(2) by auto
    then obtain i where i: "i < length cl" "cl ! i = k" by (auto simp: in_set_conv_nth)
    have "positions k cl = [i]" using positions_nth[OF assms(1) i(1)] i(2) by simp
    then show ?thesis using i k assms(1)
      by (simp add: pick_def key_cells_nth)
  qed
  then show ?thesis by (auto simp: take_labels_pick intro!: arg_cong[where f=concat])
qed


lemma tidyD:
  assumes "tidy l r keys"
  shows "distinct (columns l)" "columns r = columns l" "set keys \<subseteq> set (columns l)"
    "distinct keys" "list_all plain_label (columns l)"
    "\<And>x. x \<in> set (rows l) \<Longrightarrow> length x = length (columns l)"
    "\<And>x. x \<in> set (rows r) \<Longrightarrow> length x = length (columns l)"
  using assms by (auto simp: tidy_def wf_table_def list_all_iff)

lemma merge_rows_eq:
  assumes "columns r = columns l"
  shows "merge_rows l r keys =
     concat (map (\<lambda>lr. if matches (columns l) keys (rows r) lr = []
                        then [left_only_row (columns l) keys lr]
                        else map (both_row (columns l) keys lr) (matches (columns l) keys (rows r) lr))
                 (rows l))
     @ map (right_only_row (columns l) keys)
         [rr \<leftarrow> rows r. nkey (columns l) keys rr \<notin> nkey (columns l) keys ` set (rows l)]"
proof -
  have m: "filter (\<lambda>rr. same_key (take_labels (columns l) keys lr) (take_labels (columns l) keys rr)) (rows r)
        = matches (columns l) keys (rows r) lr" for lr
    by (auto simp: matches_def same_key_norm nkey_def intro!: filter_cong)
  have e: "(\<not> list_ex (\<lambda>lr. same_key (take_labels (columns l) keys lr) (take_labels (columns l) keys rr)) (rows l))
        \<longleftrightarrow> nkey (columns l) keys rr \<notin> nkey (columns l) keys ` set (rows l)" for rr
    by (auto simp: list_ex_iff same_key_norm nkey_def image_iff)
  show ?thesis
    unfolding merge_rows_def assms Let_def m e left_only_row_def both_row_def[abs_def]
      right_only_row_def[abs_def] key_cells_def nonkey_cells_self
    by (rule refl)
qed

lemma matches_Nil: "matches cl keys rs lr = [] \<longleftrightarrow> nkey cl keys lr \<notin> nkey cl keys ` set rs"
  by (auto simp: matches_def filter_empty_conv image_iff)

lemma last_rows [simp]:
  "last (left_only_row cl keys lr) = S ''left_only''"
  "last (both_row cl keys lr rr) = S ''both''"
  "last (right_only_row cl keys rr) = S ''right_only''"
  by (simp_all add: left_only_row_def both_row_def right_only_row_def)

lemma filter_left_only:
  assumes "columns r = columns l"
  shows "filter (\<lambda>row. last row = S ''left_only'') (merge_rows l r keys)
    = map (left_only_row (columns l) keys)
        [lr \<leftarrow> rows l. nkey (columns l) keys lr \<notin> nkey (columns l) keys ` set (rows r)]"
proof -
  have "filter (\<lambda>row. last row = S ''left_only'')
          (concat (map (\<lambda>lr. if matches (columns l) keys (rows r) lr = []
                        then [left_only_row (columns l) keys lr]
                        else map (both_row (columns l) keys lr) (matches (columns l) keys (rows r) lr)) xs))
        = map (left_only_row (columns l) keys)
            [lr \<leftarrow> xs. nkey (columns l) keys lr \<notin> nkey (columns l) keys ` set (rows r)]" for xs
    by (induction xs) (auto simp: matches_Nil filter_empty_conv)
  then show ?thesis
    by (simp add: merge_rows_eq[OF assms] filter_empty_conv)
qed

lemma filter_both:
  assumes "columns r = columns l"
  shows "filter (\<lambda>row. last row = S ''both'') (merge_rows l r keys)
    = concat (map (\<lambda>lr. map (both_row (columns l) keys lr) (matches (columns l) keys (rows r) lr))
                  (rows l))"
proof -
  have "filter (\<lambda>row. last row = S ''both'')
          (concat (map (\<lambda>lr. if matches (columns l) keys (rows r) lr = []
                        then [left_only_row (columns l) keys lr]
                        else map (both_row (columns l) keys lr) (matches (columns l) keys (rows r) lr)) xs))
        = concat (map (\<lambda>lr. map (both_row (columns l) keys lr) (matches (columns l) keys (rows r) lr)) xs)" for xs
    by (induction xs) (auto simp: filter_id_conv)
  then show ?thesis
    by (simp add: merge_rows_eq[OF assms] filter_empty_conv)
qed

lemma filter_right_only:
  assumes "columns r = columns l"
  shows "filter (\<lambda>row. last row = S ''right_only'') (merge_rows l r keys)
    = map (right_only_row (columns l) keys)
        [rr \<leftarrow> rows r. nkey (columns l) keys rr \<notin> nkey (columns l) keys ` set (rows l)]"
proof -
  have "filter (\<lambda>row. last row = S ''right_only'')
          (concat (map (\<lambda>lr. if matches (columns l) keys (rows r) lr = []
                        then [left_only_row (columns l) keys lr]
                        else map (both_row (columns l) keys lr) (matches (columns l) keys (rows r) lr)) xs))
        = []" for xs
    by (induction xs) (auto simp: filter_empty_conv)
  then show ?thesis
    by (simp add: merge_rows_eq[OF assms] filter_id_conv)
qed

lemma length_side_labels: "length (side_labels cl keys) = length cl + length (nonkeys cl keys)"
  by (simp add: side_labels_def)

lemma length_merge_rows:
  assumes "tidy l r keys" "row \<in> set (merge_rows l r keys)"
  shows "length row = Suc (length (side_labels (columns l) keys))"
  using assms(2) tidyD[OF assms(1)]
  by (auto simp: merge_rows_eq length_side_labels left_only_row_def both_row_def right_only_row_def
      length_nonkey_cells length_key_cells matches_def split: if_splits)

lemma merge_outer_tidy:
  assumes "tidy l r keys"
  shows "merge_outer arrange l r keys = Inr (joined_frame arrange l r keys)"
proof -
  note t = tidyD[OF assms]
  have 1: "missing_labels (columns l) keys @ missing_labels (columns r) keys = []"
    using t by (simp add: missing_labels_Nil)
  have 2: "''_merge'' \<notin> set (columns l) \<union> set (columns r)"
    using t by (auto simp: list_all_iff plain_label_def)
  have 3: "merge_labels l r keys
     = (map (lab keys) (columns l), map (\<lambda>c. c @ ''_right_table'') (nonkeys (columns l) keys))"
    using t by (auto simp: merge_labels_def nonkey_cells_self lab_def nonkeys_def)
  have 4: "distinct (map (lab keys) (columns l))"
       "distinct (map (\<lambda>c. c @ ''_right_table'') (nonkeys (columns l) keys))"
    using distinct_side_labels(1)[OF t(1) t(5), of keys] by (auto simp: side_labels_def)
  show ?thesis
    unfolding merge_outer_def 1 using 2 4
    by (simp add: 3 joined_frame_def side_labels_def)
qed

lemma reorders_set: "reorders arrange \<Longrightarrow> set (arrange xs) = set xs"
  by (metis reorders_def set_mset_mset)

lemma reorders_filter: "reorders arrange \<Longrightarrow> mset (filter P (arrange xs)) = mset (filter P xs)"
  by (simp add: reorders_def)

lemma rows_tagged_joined:
  assumes "tidy l r keys" "reorders arrange"
  shows "rows_tagged tag (joined_frame arrange l r keys) = Inr (tagged tag (joined_frame arrange l r keys))"
proof -
  note t = tidyD[OF assms(1)]
  have m: "''_merge'' \<notin> set (side_labels (columns l) keys)"
    using distinct_side_labels(2)[OF t(1) t(5)] .
  have "take_labels (side_labels (columns l) keys @ [''_merge'']) [''_merge''] row = [last row]"
    if "row \<in> set (arrange (merge_rows l r keys))" for row
    using that length_merge_rows[OF assms(1)] reorders_set[OF assms(2)] m
    by (intro take_labels_last) auto
  then have "filter (\<lambda>row. take_labels (side_labels (columns l) keys @ [''_merge'']) [''_merge''] row = [S tag])
               (arrange (merge_rows l r keys))
           = filter (\<lambda>row. last row = S tag) (arrange (merge_rows l r keys))"
    by (intro filter_cong) auto
  then show ?thesis
    by (simp add: rows_tagged_def joined_frame_def tagged_def)
qed


lemma pick_self: "distinct cs \<Longrightarrow> n \<in> set cs \<Longrightarrow> pick cs n cs = [n]"
  by (auto simp: in_set_conv_nth pick_def positions_nth)

lemma take_labels_id: "distinct cs \<Longrightarrow> set names \<subseteq> set cs \<Longrightarrow> take_labels cs names cs = names"
  by (induction names) (auto simp: take_labels_Cons pick_self)

lemma getitem_columns_Inr:
  "set names \<subseteq> set (columns f) \<Longrightarrow>
   getitem_columns names f =
     Inr \<lparr>columns = take_labels (columns f) names (columns f),
          rows = map (take_labels (columns f) names) (rows f)\<rparr>"
  using missing_labels_Nil[of "columns f" names] by (simp add: getitem_columns_def)

lemma keys_in_side_labels:
  "set keys \<subseteq> set cl \<Longrightarrow> set keys \<subseteq> set (side_labels cl keys)"
  by (auto simp: side_labels_def lab_def image_iff)

lemma left_in_side_labels:
  "set (map (\<lambda>c. c @ ''_left_table'') (nonkeys cl keys)) \<subseteq> set (side_labels cl keys)"
  by (auto simp: side_labels_def lab_def nonkeys_def image_iff)

lemma right_in_side_labels:
  "set (map (\<lambda>c. c @ ''_right_table'') (nonkeys cl keys)) \<subseteq> set (side_labels cl keys)"
  by (auto simp: side_labels_def)

lemma columns_tagged [simp]: "columns (tagged tag f) = columns f"
  by (simp add: tagged_def)

lemma columns_joined_frame [simp]:
  "columns (joined_frame arrange l r keys) = side_labels (columns l) keys @ [''_merge'']"
  by (simp add: joined_frame_def)

lemma split_side_left:
  assumes "tidy l r keys" "reorders arrange" "s ! j = joined_frame arrange l r keys"
  shows "split_side ''left_only'' ''_left_table'' keys j s =
     (Inr (Suc (length s)),
      s @ [tagged ''left_only'' (joined_frame arrange l r keys),
           projected (columns l) keys ''_left_table''
             (tagged ''left_only'' (joined_frame arrange l r keys))])"
proof -
  note t = tidyD[OF assms(1)]
  let ?J = "joined_frame arrange l r keys"
  let ?names = "keys @ map (\<lambda>c. c @ ''_left_table'') (nonkeys (columns l) keys)"
  have d: "distinct (columns ?J)"
    using distinct_side_labels[OF t(1) t(5), of keys] by simp
  have sub: "set ?names \<subseteq> set (columns (tagged ''left_only'' ?J))"
    using keys_in_side_labels[OF t(3)] left_in_side_labels[of "columns l" keys] by auto
  have g: "getitem_columns ?names (tagged ''left_only'' ?J)
        = Inr \<lparr>columns = ?names, rows = map (take_labels (columns ?J) ?names) (rows (tagged ''left_only'' ?J))\<rparr>"
    using getitem_columns_Inr[OF sub] take_labels_id[OF d, of ?names] sub by simp
  have f: "filter (sublist ''_left_table'') (columns ?J) = map (\<lambda>c. c @ ''_left_table'') (nonkeys (columns l) keys)"
    using filter_left_labels[OF t(5)] by simp
  show ?thesis
    unfolding split_side_def assms(3) rows_tagged_joined[OF assms(1,2)]
    using rename_left[OF t(5) t(3)]
    by (simp add: nth_append list_update_append alloc_def filter_left_labels'[OF t(5)] merge_not_suffixed g set_columns_def projected_def)
qed

lemma split_side_right:
  assumes "tidy l r keys" "reorders arrange" "s ! j = joined_frame arrange l r keys"
  shows "split_side ''right_only'' ''_right_table'' keys j s =
     (Inr (Suc (length s)),
      s @ [tagged ''right_only'' (joined_frame arrange l r keys),
           projected (columns l) keys ''_right_table''
             (tagged ''right_only'' (joined_frame arrange l r keys))])"
proof -
  note t = tidyD[OF assms(1)]
  let ?J = "joined_frame arrange l r keys"
  let ?names = "keys @ map (\<lambda>c. c @ ''_right_table'') (nonkeys (columns l) keys)"
  have d: "distinct (columns ?J)"
    using distinct_side_labels[OF t(1) t(5), of keys] by simp
  have sub: "set ?names \<subseteq> set (columns (tagged ''right_only'' ?J))"
    using keys_in_side_labels[OF t(3)] right_in_side_labels[of "columns l" keys] by auto
  have g: "getitem_columns ?names (tagged ''right_only'' ?J)
        = Inr \<lparr>columns = ?names, rows = map (take_labels (columns ?J) ?names) (rows (tagged ''right_only'' ?J))\<rparr>"
    using getitem_columns_Inr[OF sub] take_labels_id[OF d, of ?names] sub by simp
  have f: "filter (sublist ''_right_table'') (columns ?J) = map (\<lambda>c. c @ ''_right_table'') (nonkeys (columns l) keys)"
    using filter_right_labels[OF t(5)] by simp
  show ?thesis
    unfolding split_side_def assms(3) rows_tagged_joined[OF assms(1,2)]
    using rename_right[OF t(5) t(3)]
    by (simp add: nth_append list_update_append alloc_def filter_right_labels'[OF t(5)] merge_not_suffixed g set_columns_def projected_def)
qed

lemma join_split_tidy:
  assumes "tidy l r keys" "reorders arrange"
  shows "and_then (join_tables arrange (init l r keys) s) split_joined_table =
    (Returned,
     (init l r keys)\<lparr>joined := Some (length s), left_only := Some (length s + 2),
                     right_only := Some (length s + 4), both := Some (length s + 5)\<rparr>,
     s @ split_store arrange l r keys)"
proof -
  let ?J = "joined_frame arrange l r keys"
  have j: "join_tables arrange (init l r keys) s = (Returned, (init l r keys)\<lparr>joined := Some (length s)\<rparr>, s @ [?J])"
    by (simp add: join_tables_def init_def merge_outer_tidy[OF assms(1)] alloc_def)
  have 1: "(s @ [?J]) ! length s = ?J" by simp
  have 2: "(s @ [?J] @ xs) ! length s = ?J" for xs by (simp add: nth_append)
  have l: "split_side ''left_only'' ''_left_table'' keys (length s) (s @ [?J]) =
     (Inr (length s + 2), s @ [?J, tagged ''left_only'' ?J,
           projected (columns l) keys ''_left_table'' (tagged ''left_only'' ?J)])"
    using split_side_left[OF assms 1] by simp
  have r: "split_side ''right_only'' ''_right_table'' keys (length s)
        (s @ [?J, tagged ''left_only'' ?J, projected (columns l) keys ''_left_table'' (tagged ''left_only'' ?J)]) =
     (Inr (length s + 4), s @ [?J, tagged ''left_only'' ?J,
           projected (columns l) keys ''_left_table'' (tagged ''left_only'' ?J),
           tagged ''right_only'' ?J,
           projected (columns l) keys ''_right_table'' (tagged ''right_only'' ?J)])"
    using split_side_right[OF assms, of "s @ [?J, tagged ''left_only'' ?J, projected (columns l) keys ''_left_table'' (tagged ''left_only'' ?J)]" "length s"]
      2[of "[tagged ''left_only'' ?J, projected (columns l) keys ''_left_table'' (tagged ''left_only'' ?J)]"]
    by simp
  have 3: "(s @ [?J, tagged ''left_only'' ?J,
           projected (columns l) keys ''_left_table'' (tagged ''left_only'' ?J),
           tagged ''right_only'' ?J,
           projected (columns l) keys ''_right_table'' (tagged ''right_only'' ?J)]) ! length s = ?J"
    by (simp add: nth_append)
  show ?thesis
    unfolding and_then_def j
    by (simp add: split_joined_table_def l r 3 rows_tagged_joined[OF assms] alloc_def init_def split_store_def)
qed


lemma names_not_merge:
  assumes "list_all plain_label cl" "set keys \<subseteq> set cl"
  shows "''_merge'' \<notin> set (keys @ map (\<lambda>c. c @ ''_left_table'') (nonkeys cl keys))"
    and "''_merge'' \<notin> set (keys @ map (\<lambda>c. c @ ''_right_table'') (nonkeys cl keys))"
proof -
  have k: "''_merge'' \<notin> set keys" using assms by (auto simp: list_all_iff plain_label_def)
  have "c @ ''_left_table'' \<noteq> ''_merge''" "c @ ''_right_table'' \<noteq> ''_merge''" for c
    using merge_not_suffixed by (metis sublist_append_leftI)+
  then show "''_merge'' \<notin> set (keys @ map (\<lambda>c. c @ ''_left_table'') (nonkeys cl keys))"
    and "''_merge'' \<notin> set (keys @ map (\<lambda>c. c @ ''_right_table'') (nonkeys cl keys))"
    using k by (auto simp: image_iff)
qed

lemma project_left:
  assumes "tidy l r keys" "length a = length (columns l)"
    and "length b = length (nonkeys (columns l) keys)"
  shows "take_labels (side_labels (columns l) keys @ [''_merge''])
           (keys @ map (\<lambda>c. c @ ''_left_table'') (nonkeys (columns l) keys)) (a @ b @ [t])
         = key_first (columns l) keys a"
proof -
  note t = tidyD[OF assms(1)]
  have "take_labels (side_labels (columns l) keys @ [''_merge''])
           (keys @ map (\<lambda>c. c @ ''_left_table'') (nonkeys (columns l) keys)) ((a @ b) @ [t])
      = take_labels (side_labels (columns l) keys)
           (keys @ map (\<lambda>c. c @ ''_left_table'') (nonkeys (columns l) keys)) (a @ b)"
    using names_not_merge(1)[OF t(5) t(3)] assms(2,3)
    by (intro take_labels_notin) (auto simp: length_side_labels)
  then show ?thesis
    using select_keys[OF t(1) t(5) t(3) assms(2)] select_left[OF t(1) t(5) assms(2)]
    by (simp add: take_labels_append key_first_def)
qed

lemma project_right:
  assumes "tidy l r keys" "length a = length (columns l)"
    and "length b = length (nonkeys (columns l) keys)"
  shows "take_labels (side_labels (columns l) keys @ [''_merge''])
           (keys @ map (\<lambda>c. c @ ''_right_table'') (nonkeys (columns l) keys)) (a @ b @ [t])
         = take_labels (columns l) keys a @ b"
proof -
  note t = tidyD[OF assms(1)]
  have "take_labels (side_labels (columns l) keys @ [''_merge''])
           (keys @ map (\<lambda>c. c @ ''_right_table'') (nonkeys (columns l) keys)) ((a @ b) @ [t])
      = take_labels (side_labels (columns l) keys)
           (keys @ map (\<lambda>c. c @ ''_right_table'') (nonkeys (columns l) keys)) (a @ b)"
    using names_not_merge(2)[OF t(5) t(3)] assms(2,3)
    by (intro take_labels_notin) (auto simp: length_side_labels)
  then show ?thesis
    using select_keys[OF t(1) t(5) t(3) assms(2)] select_right[OF t(1) t(5) assms(2,3)]
    by (simp add: take_labels_append)
qed

lemma project_left_only_row:
  assumes "tidy l r keys" "length lr = length (columns l)"
  shows "take_labels (side_labels (columns l) keys @ [''_merge''])
           (keys @ map (\<lambda>c. c @ ''_left_table'') (nonkeys (columns l) keys))
           (left_only_row (columns l) keys lr)
         = key_first (columns l) keys lr"
  unfolding left_only_row_def using assms by (intro project_left) auto

lemma project_right_only_row:
  assumes "tidy l r keys" "length rr = length (columns l)"
  shows "take_labels (side_labels (columns l) keys @ [''_merge''])
           (keys @ map (\<lambda>c. c @ ''_right_table'') (nonkeys (columns l) keys))
           (right_only_row (columns l) keys rr)
         = key_first (columns l) keys rr"
proof -
  note t = tidyD[OF assms(1)]
  have "take_labels (side_labels (columns l) keys @ [''_merge''])
           (keys @ map (\<lambda>c. c @ ''_right_table'') (nonkeys (columns l) keys))
           (key_cells (columns l) keys rr @ nonkey_cells (columns l) keys rr @ [S ''right_only''])
        = take_labels (columns l) keys (key_cells (columns l) keys rr) @ nonkey_cells (columns l) keys rr"
    using assms t(1) by (intro project_right) (auto simp: length_key_cells length_nonkey_cells)
  then show ?thesis
    by (simp add: right_only_row_def key_first_def take_labels_key_cells[OF t(1) t(3)])
qed

lemma mset_map_filter_arrange:
  "reorders arrange \<Longrightarrow> mset (map f (filter P (arrange xs))) = mset (map f (filter P xs))"
  using reorders_filter[of arrange P xs] by (metis mset_map)

lemma rows_left_only:
  assumes "tidy l r keys" "reorders arrange"
  shows "mset (rows (projected (columns l) keys ''_left_table''
                     (tagged ''left_only'' (joined_frame arrange l r keys))))
       = mset (map (key_first (columns l) keys)
            [lr \<leftarrow> rows l. nkey (columns l) keys lr \<notin> nkey (columns l) keys ` set (rows r)])"
proof -
  note t = tidyD[OF assms(1)]
  let ?proj = "take_labels (side_labels (columns l) keys @ [''_merge''])
           (keys @ map (\<lambda>c. c @ ''_left_table'') (nonkeys (columns l) keys))"
  let ?xs = "[lr \<leftarrow> rows l. nkey (columns l) keys lr \<notin> nkey (columns l) keys ` set (rows r)]"
  have 1: "rows (projected (columns l) keys ''_left_table''
                     (tagged ''left_only'' (joined_frame arrange l r keys)))
         = map ?proj (filter (\<lambda>row. last row = S ''left_only'') (arrange (merge_rows l r keys)))"
    by (simp add: projected_def tagged_def joined_frame_def)
  have 2: "mset (map ?proj (filter (\<lambda>row. last row = S ''left_only'') (arrange (merge_rows l r keys))))
         = mset (map ?proj (filter (\<lambda>row. last row = S ''left_only'') (merge_rows l r keys)))"
    by (rule mset_map_filter_arrange[OF assms(2)])
  have 3: "map ?proj (map (left_only_row (columns l) keys) ?xs) = map (key_first (columns l) keys) ?xs"
    using project_left_only_row[OF assms(1)] t(6) by (simp add: comp_def cong: map_cong)
  show ?thesis
    unfolding 1 2 filter_left_only[OF t(2)] 3 ..
qed

lemma rows_right_only:
  assumes "tidy l r keys" "reorders arrange"
  shows "mset (rows (projected (columns l) keys ''_right_table''
                     (tagged ''right_only'' (joined_frame arrange l r keys))))
       = mset (map (key_first (columns l) keys)
            [rr \<leftarrow> rows r. nkey (columns l) keys rr \<notin> nkey (columns l) keys ` set (rows l)])"
proof -
  note t = tidyD[OF assms(1)]
  let ?proj = "take_labels (side_labels (columns l) keys @ [''_merge''])
           (keys @ map (\<lambda>c. c @ ''_right_table'') (nonkeys (columns l) keys))"
  let ?xs = "[rr \<leftarrow> rows r. nkey (columns l) keys rr \<notin> nkey (columns l) keys ` set (rows l)]"
  have 1: "rows (projected (columns l) keys ''_right_table''
                     (tagged ''right_only'' (joined_frame arrange l r keys)))
         = map ?proj (filter (\<lambda>row. last row = S ''right_only'') (arrange (merge_rows l r keys)))"
    by (simp add: projected_def tagged_def joined_frame_def)
  have 2: "mset (map ?proj (filter (\<lambda>row. last row = S ''right_only'') (arrange (merge_rows l r keys))))
         = mset (map ?proj (filter (\<lambda>row. last row = S ''right_only'') (merge_rows l r keys)))"
    by (rule mset_map_filter_arrange[OF assms(2)])
  have 3: "map ?proj (map (right_only_row (columns l) keys) ?xs) = map (key_first (columns l) keys) ?xs"
    using project_right_only_row[OF assms(1)] t(7) by (simp add: comp_def cong: map_cong)
  show ?thesis
    unfolding 1 2 filter_right_only[OF t(2)] 3 ..
qed

lemma length_matches:
  "distinct (map (nkey cl keys) rs) \<Longrightarrow>
   length (matches cl keys rs lr) = (if nkey cl keys lr \<in> nkey cl keys ` set rs then 1 else 0)"
  unfolding matches_def by (induction rs) (auto simp: image_iff)

lemma length_filter_member:
  "distinct (map f xs) \<Longrightarrow> length (filter (\<lambda>x. f x \<in> A) xs) = card (f ` set xs \<inter> A)"
proof -
  assume d: "distinct (map f xs)"
  have "length (filter (\<lambda>k. k \<in> A) (map f xs)) = length (filter (\<lambda>x. f x \<in> A) xs)"
    by (simp add: comp_def)
  then have "length (filter (\<lambda>x. f x \<in> A) xs) = length (filter (\<lambda>k. k \<in> A) (map f xs))"
    by simp
  also have "\<dots> = card (set (filter (\<lambda>k. k \<in> A) (map f xs)))"
    using d by (simp only: distinct_card[OF distinct_filter])
  also have "set (filter (\<lambda>k. k \<in> A) (map f xs)) = f ` set xs \<inter> A" by auto
  finally show ?thesis .
qed

lemma length_both:
  assumes "columns r = columns l" "distinct (map (nkey (columns l) keys) (rows r))"
  shows "length (filter (\<lambda>row. last row = S ''both'') (merge_rows l r keys))
       = length [lr \<leftarrow> rows l. nkey (columns l) keys lr \<in> nkey (columns l) keys ` set (rows r)]"
proof -
  have "length (concat (map (\<lambda>lr. map (both_row (columns l) keys lr) (matches (columns l) keys (rows r) lr)) xs))
      = length [lr \<leftarrow> xs. nkey (columns l) keys lr \<in> nkey (columns l) keys ` set (rows r)]" for xs
    by (induction xs) (auto simp: length_matches[OF assms(2)])
  then show ?thesis by (simp add: filter_both[OF assms(1)])
qed


section \<open>The field comparison, step by step\<close>

lemma length_keys_nonkeys:
  assumes "distinct cl" "distinct keys" "set keys \<subseteq> set cl"
  shows "length keys + length (nonkeys cl keys) = length cl"
proof -
  have "set (filter (\<lambda>c. c \<in> set keys) cl) = set keys" using assms(3) by auto
  then have "length (filter (\<lambda>c. c \<in> set keys) cl) = length keys"
    using assms(1,2) by (metis distinct_card distinct_filter)
  then show ?thesis
    using sum_length_filter_compl[of "\<lambda>c. c \<in> set keys" cl] by (simp add: nonkeys_def)
qed

lemma comparison_loop_map:
  "(\<And>x. x \<in> set xs \<Longrightarrow> comparison_rows cols lc rc x = Inr (g x)) \<Longrightarrow>
   comparison_loop cols lc rc xs = Inr (map g xs)"
  by (induction xs) auto

lemma take_labels_all_but_merge:
  assumes "distinct (cs @ [m])" "length row = Suc (length cs)"
  shows "take_labels (cs @ [m]) cs row = butlast row"
proof -
  have "take_labels (cs @ [m]) cs row = take_labels cs cs (butlast row)"
    using assms by (intro take_labels_butlast) auto
  then show ?thesis using assms by (simp add: take_labels_self)
qed

lemma length_left_right:
  assumes "tidy l r keys"
  shows "length (take_labels (side_labels (columns l) keys)
                   (keys @ map (\<lambda>c. c @ ''_left_table'') (nonkeys (columns l) keys)) x) = length (columns l)"
    and "length (take_labels (side_labels (columns l) keys)
                   (keys @ map (\<lambda>c. c @ ''_right_table'') (nonkeys (columns l) keys)) x) = length (columns l)"
proof -
  note t = tidyD[OF assms]
  have d: "distinct (side_labels (columns l) keys)" using distinct_side_labels(1)[OF t(1) t(5)] .
  show "length (take_labels (side_labels (columns l) keys)
                   (keys @ map (\<lambda>c. c @ ''_left_table'') (nonkeys (columns l) keys)) x) = length (columns l)"
    using length_take_labels[OF d, of "keys @ map (\<lambda>c. c @ ''_left_table'') (nonkeys (columns l) keys)" x]
      keys_in_side_labels[OF t(3)] left_in_side_labels[of "columns l" keys]
      length_keys_nonkeys[OF t(1) t(4) t(3)] by simp
  show "length (take_labels (side_labels (columns l) keys)
                   (keys @ map (\<lambda>c. c @ ''_right_table'') (nonkeys (columns l) keys)) x) = length (columns l)"
    using length_take_labels[OF d, of "keys @ map (\<lambda>c. c @ ''_right_table'') (nonkeys (columns l) keys)" x]
      keys_in_side_labels[OF t(3)] right_in_side_labels[of "columns l" keys]
      length_keys_nonkeys[OF t(1) t(4) t(3)] by simp
qed

lemma comparison_rows_tidy:
  assumes "tidy l r keys"
  shows "comparison_rows (side_labels (columns l) keys)
           (keys @ map (\<lambda>c. c @ ''_left_table'') (nonkeys (columns l) keys))
           (keys @ map (\<lambda>c. c @ ''_right_table'') (nonkeys (columns l) keys)) x
       = Inr \<lparr>columns = map decimal [0..<length (columns l)] @ [''comparison''],
              rows = map (\<lambda>row. tl row @ [hd row]) (block_rows (columns l) keys x)\<rparr>"
proof -
  note t = tidyD[OF assms]
  have 1: "missing_labels (side_labels (columns l) keys)
             (keys @ map (\<lambda>c. c @ ''_left_table'') (nonkeys (columns l) keys)) = []"
    using keys_in_side_labels[OF t(3)] left_in_side_labels[of "columns l" keys]
    by (simp add: missing_labels_Nil)
  have 2: "missing_labels (side_labels (columns l) keys)
             (keys @ map (\<lambda>c. c @ ''_right_table'') (nonkeys (columns l) keys)) = []"
    using keys_in_side_labels[OF t(3)] right_in_side_labels[of "columns l" keys]
    by (simp add: missing_labels_Nil)
  show ?thesis
    unfolding comparison_rows_def 1 2 Let_def
    by (simp add: length_left_right[OF assms] block_rows_def flags_def)
qed

lemma swap_comparison:
  assumes "distinct cl" "''comparison'' \<notin> set cl" "length row = Suc (length cl)"
  shows "take_labels (cl @ [''comparison'']) (''comparison'' # cl) (tl row @ [hd row]) = row"
proof -
  obtain y x where r: "row = y # x" "length x = length cl" using assms(3) by (cases row) auto
  have "take_labels (cl @ [''comparison'']) cl (x @ [y]) = take_labels cl cl x"
    using assms(2) r(2) by (intro take_labels_notin) auto
  then show ?thesis using assms(1,2) r
    by (simp add: take_labels_Cons pick_append pick_notin pick_single take_labels_self)
qed

lemma length_block_rows:
  "tidy l r keys \<Longrightarrow> row \<in> set (block_rows (columns l) keys x) \<Longrightarrow> length row = Suc (length (columns l))"
  by (auto simp: block_rows_def flags_def length_left_right)

lemma concat_frames_map:
  "xs \<noteq> [] \<Longrightarrow>
   concat_frames (map g xs) = Inr \<lparr>columns = columns (g (hd xs)), rows = concat (map (\<lambda>x. rows (g x)) xs)\<rparr>"
  by (cases xs) (simp_all add: concat_frames_def comp_def)

lemma columns_filled_both [simp]: "columns (filled_both arrange l r keys) = side_labels (columns l) keys"
  by (simp add: filled_both_def)

lemma compare_tidy:
  assumes "tidy l r keys" "reorders arrange"
    and "both c = Some b" "b < length s" "s ! b = tagged ''both'' (joined_frame arrange l r keys)"
    and "primary_keys c = keys" "left_table c = l"
  shows "compare_records_in_both c s =
    (if rows (tagged ''both'' (joined_frame arrange l r keys)) = []
     then (Raised (ValueError ''No objects to concatenate''), c, s @ [filled_both arrange l r keys])
     else (Returned, c\<lparr>comparison_df := Some (length s + 2)\<rparr>,
           s @ [filled_both arrange l r keys,
                \<lparr>columns = columns l @ [''comparison''],
                 rows = concat (map (\<lambda>x. map (\<lambda>row. tl row @ [hd row]) (block_rows (columns l) keys x))
                                    (rows (filled_both arrange l r keys)))\<rparr>,
                comparison_frame arrange l r keys]))"
proof -
  note t = tidyD[OF assms(1)]
  let ?SL = "side_labels (columns l) keys"
  let ?Bf = "tagged ''both'' (joined_frame arrange l r keys)"
  let ?F = "filled_both arrange l r keys"
  have dm: "distinct (?SL @ [''_merge''])" "''_merge'' \<notin> set ?SL"
    using distinct_side_labels[OF t(1) t(5), of keys] by auto
  have len: "length row = Suc (length ?SL)" if "row \<in> set (rows ?Bf)" for row
    using that length_merge_rows[OF assms(1)] reorders_set[OF assms(2)]
    by (auto simp: tagged_def joined_frame_def)
  have bl: "map (take_labels (?SL @ [''_merge'']) ?SL) (rows ?Bf) = map butlast (rows ?Bf)"
    using len take_labels_all_but_merge[OF dm(1)] by (intro map_cong) auto
  have fm: "[n \<leftarrow> columns ?Bf. n \<noteq> ''_merge''] = ?SL"
    by (simp only: columns_tagged columns_joined_frame filter_not_merge[OF dm(2)])
  have sub: "set ?SL \<subseteq> set (columns ?Bf)" by auto
  have tid: "take_labels (?SL @ [''_merge'']) ?SL (?SL @ [''_merge'']) = ?SL"
    by (rule take_labels_id[OF dm(1)]) auto
  have fm': "filter (\<lambda>n. n \<noteq> ''_merge'') ?SL = ?SL"
    using dm(2) by (auto simp: filter_id_conv)
  have g0: "getitem_columns ?SL ?Bf
      = Inr \<lparr>columns = ?SL, rows = map butlast (rows ?Bf)\<rparr>"
    unfolding getitem_columns_Inr[OF sub] by (simp add: tid bl)
  have fl: "fillna \<lparr>columns = ?SL, rows = map butlast (rows ?Bf)\<rparr> = ?F"
    by (simp add: fillna_def filled_both_def fill_row_def comp_def)
  have loop: "comparison_loop ?SL
           (keys @ map (\<lambda>c. c @ ''_left_table'') (nonkeys (columns l) keys))
           (keys @ map (\<lambda>c. c @ ''_right_table'') (nonkeys (columns l) keys)) (rows ?F)
       = Inr (map (\<lambda>x. \<lparr>columns = map decimal [0..<length (columns l)] @ [''comparison''],
              rows = map (\<lambda>row. tl row @ [hd row]) (block_rows (columns l) keys x)\<rparr>) (rows ?F))"
    by (rule comparison_loop_map) (rule comparison_rows_tidy[OF assms(1)])
  have emp: "rows ?F = [] \<longleftrightarrow> rows ?Bf = []" by (simp add: filled_both_def)
  have cmp: "''comparison'' \<notin> set (columns l)" using t(5) by (auto simp: list_all_iff plain_label_def)
  have sw: "map (take_labels (columns l @ [''comparison'']) (''comparison'' # columns l))
              (concat (map (\<lambda>x. map (\<lambda>row. tl row @ [hd row]) (block_rows (columns l) keys x)) (rows ?F)))
          = concat (map (block_rows (columns l) keys) (rows ?F))"
  proof -
    have inner: "map (\<lambda>row. take_labels (columns l @ [''comparison'']) (''comparison'' # columns l)
                         (tl row @ [hd row])) (block_rows (columns l) keys x)
               = block_rows (columns l) keys x" for x
      using swap_comparison[OF t(1) cmp] length_block_rows[OF assms(1)]
      by (intro map_idI) blast
    show ?thesis by (simp add: map_concat comp_def inner)
  qed
  have g1: "getitem_columns (''comparison'' # columns l)
         \<lparr>columns = columns l @ [''comparison''],
          rows = concat (map (\<lambda>x. map (\<lambda>row. tl row @ [hd row]) (block_rows (columns l) keys x)) (rows ?F))\<rparr>
       = Inr (comparison_frame arrange l r keys)"
    using getitem_columns_Inr[of "''comparison'' # columns l"
        "\<lparr>columns = columns l @ [''comparison''],
          rows = concat (map (\<lambda>x. map (\<lambda>row. tl row @ [hd row]) (block_rows (columns l) keys x)) (rows ?F))\<rparr>"]
      t(1) cmp sw
    by (simp add: comparison_frame_def take_labels_Cons pick_append pick_notin pick_single
        take_labels_notin[where b="[''comparison'']" and ds="[''comparison'']", simplified] take_labels_self)
  show ?thesis
  proof (cases "rows ?Bf = []")
    case True
    then have "rows ?F = []" using emp by simp
    then show ?thesis
      using True
      by (simp add: compare_records_in_both_def assms(3,5,6,7) Let_def
          filter_left_labels'[OF t(5)] filter_right_labels'[OF t(5)] merge_not_suffixed
          fm' g0 alloc_def fillna_def filled_both_def concat_frames_def)
  next
    case False
    then have ne: "rows ?F \<noteq> []" using emp by simp
    show ?thesis
      using False
      by (simp add: compare_records_in_both_def assms(3,5,6,7) Let_def
          filter_left_labels'[OF t(5)] filter_right_labels'[OF t(5)] merge_not_suffixed
          fm' g0 alloc_def fl loop concat_frames_map[OF ne] set_columns_def g1 nth_append list_update_append)
  qed
qed


end
